theory Spec2Isabelle
  imports Main "HOL-Library.Word"
begin

unbundle bit_operations_syntax

section \<open>The 8-bit MVE frame decoder (libmve/decoder8.cpp)\<close>

text \<open>
  The decoder walks raw byte pointers. Both frame buffers live in one flat address space:
  a memory maps an address to the byte stored there, \<open>vBackBuf1\<close> and \<open>vBackBuf2\<close>
  are the base addresses of the buffer being written and of the buffer from two frames
  ago, and \<open>pFrame\<close> is the address of the write cursor. Pointer arithmetic is integer
  arithmetic on addresses (a \<open>size_t\<close> product such as \<open>y * width\<close> with a negative
  \<open>y\<close> wraps in the source and, added to a pointer, moves it back by the same amount).
  An access outside a buffer is undefined behaviour in the source; in the model it reads
  or writes the flat memory at that address, so that an out-of-bounds write can be seen.

  The payload is read through a \<open>const\<close> pointer that carries no length: it is a
  function from offsets to bytes, and \<open>pData\<close> is the offset of the read cursor.
  The payload is taken to lie outside both frame buffers.
\<close>

type_synonym byte = "8 word"
type_synonym memory = "int \<Rightarrow> byte"
type_synonym payload = "nat \<Rightarrow> byte"

text \<open>The variables \<open>dispatchDecoder\<close> updates through its pointer arguments:
  \<open>*pFrame\<close>, \<open>*pData\<close>, \<open>*pDataRemain\<close>, \<open>*curXb\<close>, \<open>*curYb\<close>, and the memory
  the frame pointers point into. The three \<open>int\<close>s never come near the 32-bit limits
  for a frame, so they are unbounded integers.\<close>

record decoder =
  mem :: memory
  pFrame :: int
  pData :: nat
  pDataRemain :: int
  curXb :: int
  curYb :: int

subsection \<open>relClose, relFar\<close>

text \<open>C's \<open>/\<close> and \<open>%\<close> on \<open>int\<close> truncate towards zero.\<close>

definition c_div :: "int \<Rightarrow> int \<Rightarrow> int" where
  "c_div a b = sgn a * sgn b * (\<bar>a\<bar> div \<bar>b\<bar>)"

definition c_mod :: "int \<Rightarrow> int \<Rightarrow> int" where
  "c_mod a b = a - b * c_div a b"

definition relClose :: "int \<Rightarrow> int \<times> int" where
  "relClose i = (let ma = drop_bit 4 i; mi = i AND 0xf in (mi - 8, ma - 8))"

definition relFar :: "int \<Rightarrow> int \<Rightarrow> int \<times> int" where
  "relFar i sign =
     (if i < 56
      then (sign * (8 + c_mod i 7), sign * c_div i 7)
      else (sign * (-14 + c_mod (i - 56) 29), sign * (8 + c_div (i - 56) 29)))"

subsection \<open>copyFrame and the standard-library copies\<close>

text \<open>\<open>range_for (const int i, xrange(n))\<close>: the body runs for i = 0, ..., n - 1.\<close>

definition for_range :: "nat \<Rightarrow> (nat \<Rightarrow> 'a \<Rightarrow> 'a) \<Rightarrow> 'a \<Rightarrow> 'a" where
  "for_range n body s = foldl (\<lambda>s i. body i s) s [0..<n]"

text \<open>\<open>std::copy_n\<close> and \<open>std::fill_n\<close> assign element by element, in ascending order.\<close>

definition copy_n :: "int \<Rightarrow> nat \<Rightarrow> int \<Rightarrow> memory \<Rightarrow> memory" where
  "copy_n pSrc n pDest m = for_range n (\<lambda>k m. m(pDest + int k := m (pSrc + int k))) m"

definition copy_n_payload :: "payload \<Rightarrow> nat \<Rightarrow> nat \<Rightarrow> int \<Rightarrow> memory \<Rightarrow> memory" where
  "copy_n_payload dat pSrc n pDest m = for_range n (\<lambda>k m. m(pDest + int k := dat (pSrc + k))) m"

definition fill_n :: "int \<Rightarrow> nat \<Rightarrow> byte \<Rightarrow> memory \<Rightarrow> memory" where
  "fill_n pDest n v m = for_range n (\<lambda>k m. m(pDest + int k := v)) m"

text \<open>copies an 8x8 block from pSrc to pDest; both are \<open>width\<close> bytes wide. The loop
  state is the two pointers and the memory.\<close>

definition copyFrame_row :: "nat \<Rightarrow> int \<times> int \<times> memory \<Rightarrow> int \<times> int \<times> memory" where
  "copyFrame_row width s =
     (case s of (pDest, pSrc, m) \<Rightarrow>
        (pDest + int width, pSrc + int width, copy_n pSrc 8 pDest m))"

definition copyFrame :: "nat \<Rightarrow> int \<Rightarrow> int \<Rightarrow> memory \<Rightarrow> memory" where
  "copyFrame width pDest pSrc m =
     snd (snd (for_range 8 (\<lambda>i. copyFrame_row width) (pDest, pSrc, m)))"

subsection \<open>Pattern fillers\<close>

text \<open>A filler's own frame pointer (its parameter \<open>pFrame\<close>) is \<open>pF\<close> here.
  The fillers shift a mask to the left until it leaves the integer type
  (\<open>while (mask != 0)\<close>). The number of shifts left before a mask is zero is the
  measure of these loops.\<close>

lemma shl_measure:
  fixes msk :: "'a::len word"
  assumes "msk \<noteq> 0" and "0 < s"
  shows "(LEAST k. push_bit (s * k) (push_bit s msk) = 0) < (LEAST k. push_bit (s * k) msk = 0)"
proof -
  let ?P = "\<lambda>k. push_bit (s * k) msk = 0"
  have "LENGTH('a) \<le> s * LENGTH('a)" using assms(2) by simp
  then have top: "?P LENGTH('a)"
    by (intro bit_word_eqI) (simp add: bit_simps)
  have bot: "\<not> ?P 0" using assms(1) by simp
  have "(LEAST k. ?P k) = Suc (LEAST k. ?P (Suc k))"
    by (rule Least_Suc [OF top bot])
  moreover have "\<And>k. ?P (Suc k) = (push_bit (s * k) (push_bit s msk) = 0)"
    by (simp add: push_bit_add [symmetric] add.commute)
  ultimately show ?thesis by simp
qed

text \<open>Fill in the next eight bytes with p[0], p[1], p[2], or p[3], depending on the
  corresponding two-bit value in pat0 and pat1. \<open>mask\<close>, \<open>shift\<close> and \<open>pattern\<close> are
  \<open>unsigned short\<close>.\<close>

function patternRow4Pixels_loop ::
  "16 word \<Rightarrow> nat \<Rightarrow> 16 word \<Rightarrow> int \<Rightarrow> byte list \<Rightarrow> memory \<Rightarrow> memory" where
  "patternRow4Pixels_loop msk shift pattern pF p m =
     (if msk \<noteq> 0
      then patternRow4Pixels_loop (push_bit 2 msk) (shift + 2) pattern (pF + 1) p
             (m(pF := p ! unat (drop_bit shift (msk AND pattern))))
      else m)"
  by pat_completeness auto
termination
  by (relation "measure (\<lambda>(msk, shift, pattern, pF, p, m). LEAST k. push_bit (2 * k) msk = 0)")
     (use shl_measure [where s = 2] in auto)

declare patternRow4Pixels_loop.simps [simp del]

definition patternRow4Pixels :: "int \<Rightarrow> byte \<Rightarrow> byte \<Rightarrow> byte list \<Rightarrow> memory \<Rightarrow> memory" where
  "patternRow4Pixels pF pat0 pat1 p m =
     patternRow4Pixels_loop 0x0003 0 (push_bit 8 (ucast pat1) OR ucast pat0) pF p m"

text \<open>Fill in the next four 2x2 pixel blocks with p[0], p[1], p[2], or p[3], depending
  on the corresponding two-bit value in pat0. \<open>mask\<close> and \<open>shift\<close> are \<open>unsigned char\<close>.\<close>

function patternRow4Pixels2_loop ::
  "nat \<Rightarrow> byte \<Rightarrow> nat \<Rightarrow> int \<Rightarrow> byte \<Rightarrow> byte list \<Rightarrow> memory \<Rightarrow> memory" where
  "patternRow4Pixels2_loop width msk shift pF pat0 p m =
     (if msk \<noteq> 0
      then (let pel = p ! unat (drop_bit shift (msk AND pat0)) in
            patternRow4Pixels2_loop width (push_bit 2 msk) (shift + 2) (pF + 2) pat0 p
              (m(pF := pel, pF + 1 := pel,
                 pF + int width := pel, pF + int width + 1 := pel)))
      else m)"
  by pat_completeness auto
termination
  by (relation "measure (\<lambda>(width, msk, shift, pF, pat0, p, m). LEAST k. push_bit (2 * k) msk = 0)")
     (use shl_measure [where s = 2] in auto)

declare patternRow4Pixels2_loop.simps [simp del]

definition patternRow4Pixels2 :: "nat \<Rightarrow> int \<Rightarrow> byte \<Rightarrow> byte list \<Rightarrow> memory \<Rightarrow> memory" where
  "patternRow4Pixels2 width pF pat0 p m = patternRow4Pixels2_loop width 0x03 0 pF pat0 p m"

text \<open>Fill in the next four 2x1 pixel blocks with p[0], p[1], p[2], or p[3], depending
  on the corresponding two-bit value in pat.\<close>

function patternRow4Pixels2x1_loop ::
  "byte \<Rightarrow> nat \<Rightarrow> int \<Rightarrow> byte \<Rightarrow> byte list \<Rightarrow> memory \<Rightarrow> memory" where
  "patternRow4Pixels2x1_loop msk shift pF pat p m =
     (if msk \<noteq> 0
      then (let pel = p ! unat (drop_bit shift (msk AND pat)) in
            patternRow4Pixels2x1_loop (push_bit 2 msk) (shift + 2) (pF + 2) pat p
              (m(pF := pel, pF + 1 := pel)))
      else m)"
  by pat_completeness auto
termination
  by (relation "measure (\<lambda>(msk, shift, pF, pat, p, m). LEAST k. push_bit (2 * k) msk = 0)")
     (use shl_measure [where s = 2] in auto)

declare patternRow4Pixels2x1_loop.simps [simp del]

definition patternRow4Pixels2x1 :: "int \<Rightarrow> byte \<Rightarrow> byte list \<Rightarrow> memory \<Rightarrow> memory" where
  "patternRow4Pixels2x1 pF pat p m = patternRow4Pixels2x1_loop 0x03 0 pF pat p m"

text \<open>Fill in the next 4x4 pixel block with p[0], p[1], p[2], or p[3], depending on the
  corresponding two-bit value in pat0, pat1, pat2, and pat3. \<open>mask\<close> and \<open>pat\<close> are
  \<open>unsigned long\<close>; the sixteen steps look at bits 0 to 31 only, which is the width
  modelled. The loop state is the frame pointer, the mask and the shift.\<close>

definition patternQuadrant4Pixels_step ::
  "nat \<Rightarrow> 32 word \<Rightarrow> byte list \<Rightarrow> nat \<Rightarrow> (int \<times> 32 word \<times> nat) \<times> memory
     \<Rightarrow> (int \<times> 32 word \<times> nat) \<times> memory" where
  "patternQuadrant4Pixels_step width pat p i s =
     (case s of ((pF, msk, shift), m) \<Rightarrow>
        let m' = m(pF + int (i AND 3) := p ! unat (drop_bit shift (pat AND msk)));
            pF' = (if i AND 3 = 3 then pF + int width else pF)
        in ((pF', push_bit 2 msk, shift + 2), m'))"

definition patternQuadrant4Pixels ::
  "nat \<Rightarrow> int \<Rightarrow> byte \<Rightarrow> byte \<Rightarrow> byte \<Rightarrow> byte \<Rightarrow> byte list \<Rightarrow> memory \<Rightarrow> memory" where
  "patternQuadrant4Pixels width pF pat0 pat1 pat2 pat3 p m =
     (let pat = push_bit 24 (ucast pat3) OR push_bit 16 (ucast pat2)
                OR push_bit 8 (ucast pat1) OR ucast pat0
      in snd (for_range 16 (patternQuadrant4Pixels_step width pat p) ((pF, 0x00000003, 0), m)))"

text \<open>fills the next 8 pixels with either p[0] or p[1], depending on pattern\<close>

function patternRow2Pixels_loop :: "byte \<Rightarrow> int \<Rightarrow> byte \<Rightarrow> byte list \<Rightarrow> memory \<Rightarrow> memory" where
  "patternRow2Pixels_loop msk pF pat p m =
     (if msk \<noteq> 0
      then patternRow2Pixels_loop (push_bit 1 msk) (pF + 1) pat p
             (m(pF := p ! (if msk AND pat \<noteq> 0 then 1 else 0)))
      else m)"
  by pat_completeness auto
termination
  by (relation "measure (\<lambda>(msk, pF, pat, p, m). LEAST k. push_bit (1 * k) msk = 0)")
     (use shl_measure [where s = 1] in auto)

declare patternRow2Pixels_loop.simps [simp del]

definition patternRow2Pixels :: "int \<Rightarrow> byte \<Rightarrow> byte list \<Rightarrow> memory \<Rightarrow> memory" where
  "patternRow2Pixels pF pat p m = patternRow2Pixels_loop 0x01 pF pat p m"

text \<open>fills the next four 2 x 2 pixel boxes with either p[0] or p[1], depending on
  pattern. The loop leaves when the mask is \<open>0x10\<close>, which a mask that starts
  at 0 or above \<open>0x10\<close> never is: the loop is a partial function, \<open>None\<close> where
  it does not leave.\<close>

partial_function (option) patternRow2Pixels2_loop ::
  "nat \<Rightarrow> byte \<Rightarrow> int \<Rightarrow> byte \<Rightarrow> byte list \<Rightarrow> memory \<Rightarrow> memory option" where
  "patternRow2Pixels2_loop width msk pF pat p m =
     (if msk \<noteq> 0x10
      then (let pel = p ! (if msk AND pat \<noteq> 0 then 1 else 0) in
            patternRow2Pixels2_loop width (push_bit 1 msk) (pF + 2) pat p
              (m(pF := pel, pF + 1 := pel,
                 pF + int width := pel, pF + int width + 1 := pel)))
      else Some m)"

declare patternRow2Pixels2_loop.simps [code]

definition patternRow2Pixels2 :: "nat \<Rightarrow> int \<Rightarrow> byte \<Rightarrow> byte list \<Rightarrow> memory \<Rightarrow> memory option" where
  "patternRow2Pixels2 width pF pat p m = patternRow2Pixels2_loop width 0x1 pF pat p m"

text \<open>fills pixels in the next 4 x 4 pixel boxes with either p[0] or p[1], depending on
  pat0 and pat1. The loop state is the mask.\<close>

definition patternQuadrant2Pixels_step ::
  "nat \<Rightarrow> int \<Rightarrow> 16 word \<Rightarrow> byte list \<Rightarrow> nat \<Rightarrow> nat \<Rightarrow> 16 word \<times> memory \<Rightarrow> 16 word \<times> memory" where
  "patternQuadrant2Pixels_step width pF pat p i j s =
     (case s of (msk, m) \<Rightarrow>
        (push_bit 1 msk,
         m(pF + int (j + i * width) := p ! (if pat AND msk \<noteq> 0 then 1 else 0))))"

definition patternQuadrant2Pixels ::
  "nat \<Rightarrow> int \<Rightarrow> byte \<Rightarrow> byte \<Rightarrow> byte list \<Rightarrow> memory \<Rightarrow> memory" where
  "patternQuadrant2Pixels width pF pat0 pat1 p m =
     (let pat = push_bit 8 (ucast pat1) OR ucast pat0
      in snd (for_range 4 (\<lambda>i. for_range 4 (patternQuadrant2Pixels_step width pF pat p i))
                (0x0001, m)))"

subsection \<open>dispatchDecoder\<close>

text \<open>The local array \<open>p\<close> before any assignment. Its contents are indeterminate in the
  source; every opcode assigns the entries it reads.\<close>

definition p_unset :: "byte list" where
  "p_unset = [0, 0, 0, 0]"

text \<open>case 0x0: the block is copied from the buffer of two frames ago, then falls
  through to case 0x1, which only moves the cursor.\<close>

definition op0x0 :: "int \<Rightarrow> int \<Rightarrow> nat \<Rightarrow> decoder \<Rightarrow> decoder" where
  "op0x0 vBackBuf1 vBackBuf2 width st =
     st\<lparr>mem := copyFrame width (pFrame st) (pFrame st + (vBackBuf2 - vBackBuf1)) (mem st)\<rparr>"

definition op0x1 :: "decoder \<Rightarrow> decoder" where
  "op0x1 st = st\<lparr>pFrame := pFrame st + 8\<rparr>"

text \<open>cases 0x2 (sign 1) and 0x3 (sign -1): copy from nearby within the new frame.\<close>

definition op_relFar :: "int \<Rightarrow> nat \<Rightarrow> payload \<Rightarrow> decoder \<Rightarrow> decoder" where
  "op_relFar sign width dat st =
     (case relFar (uint (dat (pData st))) sign of (x, y) \<Rightarrow>
        st\<lparr>mem := copyFrame width (pFrame st) (pFrame st + x + y * int width) (mem st),
           pData := pData st + 1,
           pFrame := pFrame st + 8,
           pDataRemain := pDataRemain st - 1\<rparr>)"

definition op0x4 :: "int \<Rightarrow> int \<Rightarrow> nat \<Rightarrow> payload \<Rightarrow> decoder \<Rightarrow> decoder" where
  "op0x4 vBackBuf1 vBackBuf2 width dat st =
     (case relClose (uint (dat (pData st))) of (x, y) \<Rightarrow>
        st\<lparr>mem := copyFrame width (pFrame st)
                    (pFrame st + (vBackBuf2 - vBackBuf1) + x + y * int width) (mem st),
           pData := pData st + 1,
           pFrame := pFrame st + 8,
           pDataRemain := pDataRemain st - 1\<rparr>)"

definition op0x5 :: "int \<Rightarrow> int \<Rightarrow> nat \<Rightarrow> payload \<Rightarrow> decoder \<Rightarrow> decoder" where
  "op0x5 vBackBuf1 vBackBuf2 width dat st =
     (let x = sint (dat (pData st)); y = sint (dat (pData st + 1)) in
        st\<lparr>mem := copyFrame width (pFrame st)
                    (pFrame st + (vBackBuf2 - vBackBuf1) + x + y * int width) (mem st),
           pData := pData st + 2,
           pFrame := pFrame st + 8,
           pDataRemain := pDataRemain st - 2\<rparr>)"

text \<open>case 0x6: one pass of the loop body. The flag says that the body executed
  \<open>return\<close>.\<close>

definition op0x6_step :: "nat \<Rightarrow> nat \<Rightarrow> decoder \<Rightarrow> bool \<times> decoder" where
  "op0x6_step width height st =
     (let st1 = st\<lparr>pFrame := pFrame st + 16, curXb := curXb st + 1\<rparr> in
      if curXb st1 = int (drop_bit 3 width)
      then (let st2 = st1\<lparr>pFrame := pFrame st1 + 7 * int width, curXb := 0,
                          curYb := curYb st1 + 1\<rparr>
            in (curYb st2 = int (drop_bit 3 height), st2))
      else (False, st1))"

definition op0x6 :: "nat \<Rightarrow> nat \<Rightarrow> decoder \<Rightarrow> decoder" where
  "op0x6 width height st =
     (let r1 = op0x6_step width height st in
      if fst r1 then snd r1 else snd (op0x6_step width height (snd r1)))"

text \<open>case 0x7: two colours, one bit per pixel or per 2x2 cell.\<close>

definition op0x7_row :: "nat \<Rightarrow> payload \<Rightarrow> byte list \<Rightarrow> decoder \<Rightarrow> decoder" where
  "op0x7_row width dat p st =
     st\<lparr>mem := patternRow2Pixels (pFrame st) (dat (pData st)) p (mem st),
        pData := pData st + 1,
        pFrame := pFrame st + int width\<rparr>"

definition op0x7_pair :: "nat \<Rightarrow> payload \<Rightarrow> byte list \<Rightarrow> decoder \<Rightarrow> decoder option" where
  "op0x7_pair width dat p st =
     (case patternRow2Pixels2 width (pFrame st) (dat (pData st) AND 0xf) p (mem st) of
        None \<Rightarrow> None
      | Some m1 \<Rightarrow>
         (case patternRow2Pixels2 width (pFrame st + 2 * int width)
                 (drop_bit 4 (dat (pData st))) p m1 of
            None \<Rightarrow> None
          | Some m2 \<Rightarrow>
              Some (st\<lparr>mem := m2, pData := pData st + 1,
                       pFrame := pFrame st + 2 * int width + 2 * int width\<rparr>)))"

definition op0x7 :: "nat \<Rightarrow> payload \<Rightarrow> decoder \<Rightarrow> decoder option" where
  "op0x7 width dat st =
     (let p = p_unset[0 := dat (pData st), 1 := dat (pData st + 1)];
          st1 = st\<lparr>pData := pData st + 2\<rparr>
      in if p ! 0 \<le> p ! 1
         then (let st2 = for_range 8 (\<lambda>i. op0x7_row width dat p) st1
               in Some (st2\<lparr>pFrame := pFrame st2 - (8 * int width - 8)\<rparr>))
         else (case op0x7_pair width dat p st1 of
                 None \<Rightarrow> None
               | Some st2 \<Rightarrow>
                  (case op0x7_pair width dat p st2 of
                     None \<Rightarrow> None
                   | Some st3 \<Rightarrow> Some (st3\<lparr>pFrame := pFrame st3 - (8 * int width - 8)\<rparr>))))"

text \<open>case 0x8: two colours per quadrant or per half. The loops carry the array \<open>p\<close>
  beside the decoder variables.\<close>

definition op0x8_quadrant :: "nat \<Rightarrow> payload \<Rightarrow> nat \<Rightarrow> byte list \<times> decoder \<Rightarrow> byte list \<times> decoder" where
  "op0x8_quadrant width dat i ps =
     (case ps of (p, st) \<Rightarrow>
        let p' = p[0 := dat (pData st), 1 := dat (pData st + 1)];
            pat0 = dat (pData st + 2);
            pat1 = dat (pData st + 3)
        in (p', st\<lparr>mem := patternQuadrant2Pixels width (pFrame st) pat0 pat1 p' (mem st),
                    pData := pData st + 4,
                    pFrame := (if i AND 1 \<noteq> 0 then pFrame st + (4 - 4 * int width)
                               else pFrame st + 4 * int width)\<rparr>))"

definition op0x8_half :: "nat \<Rightarrow> payload \<Rightarrow> nat \<Rightarrow> byte list \<times> decoder \<Rightarrow> byte list \<times> decoder" where
  "op0x8_half width dat i ps =
     (case ps of (p, st) \<Rightarrow>
        let p' = (if i AND 1 = 0 then p[0 := dat (pData st), 1 := dat (pData st + 1)] else p);
            d = (if i AND 1 = 0 then pData st + 2 else pData st);
            pat0 = dat d;
            pat1 = dat (d + 1)
        in (p', st\<lparr>mem := patternQuadrant2Pixels width (pFrame st) pat0 pat1 p' (mem st),
                    pData := d + 2,
                    pFrame := (if i AND 1 \<noteq> 0 then pFrame st - (4 * int width - 4)
                               else pFrame st + 4 * int width)\<rparr>))"

definition op0x8_row :: "nat \<Rightarrow> payload \<Rightarrow> nat \<Rightarrow> byte list \<times> decoder \<Rightarrow> byte list \<times> decoder" where
  "op0x8_row width dat i ps =
     (case ps of (p, st) \<Rightarrow>
        let p' = (if i AND 3 = 0 then p[0 := dat (pData st), 1 := dat (pData st + 1)] else p);
            d = (if i AND 3 = 0 then pData st + 2 else pData st)
        in (p', st\<lparr>mem := patternRow2Pixels (pFrame st) (dat d) p' (mem st),
                    pData := d + 1,
                    pFrame := pFrame st + int width\<rparr>))"

definition op0x8 :: "nat \<Rightarrow> payload \<Rightarrow> decoder \<Rightarrow> decoder" where
  "op0x8 width dat st =
     (if dat (pData st) \<le> dat (pData st + 1)
      then snd (for_range 4 (op0x8_quadrant width dat) (p_unset, st))
      else if dat (pData st + 6) \<le> dat (pData st + 7)
      then snd (for_range 4 (op0x8_half width dat) (p_unset, st))
      else (let st1 = snd (for_range 8 (op0x8_row width dat) (p_unset, st))
            in st1\<lparr>pFrame := pFrame st1 - (8 * int width - 8)\<rparr>))"

text \<open>case 0x9: four colours, two bits per unit.\<close>

definition op0x9_row :: "nat \<Rightarrow> payload \<Rightarrow> byte list \<Rightarrow> decoder \<Rightarrow> decoder" where
  "op0x9_row width dat p st =
     (let pat0 = dat (pData st); pat1 = dat (pData st + 1) in
        st\<lparr>mem := patternRow4Pixels (pFrame st) pat0 pat1 p (mem st),
           pData := pData st + 2,
           pFrame := pFrame st + int width\<rparr>)"

definition op0x9_2x2 :: "nat \<Rightarrow> payload \<Rightarrow> byte list \<Rightarrow> decoder \<Rightarrow> decoder" where
  "op0x9_2x2 width dat p st =
     (let m1 = patternRow4Pixels2 width (pFrame st) (dat (pData st)) p (mem st);
          f1 = pFrame st + 2 * int width;
          m2 = patternRow4Pixels2 width f1 (dat (pData st + 1)) p m1;
          f2 = f1 + 2 * int width;
          m3 = patternRow4Pixels2 width f2 (dat (pData st + 2)) p m2;
          f3 = f2 + 2 * int width;
          m4 = patternRow4Pixels2 width f3 (dat (pData st + 3)) p m3
      in st\<lparr>mem := m4, pData := pData st + 4, pFrame := f3 - (6 * int width - 8)\<rparr>)"

definition op0x9_strip2x1 :: "nat \<Rightarrow> payload \<Rightarrow> byte list \<Rightarrow> decoder \<Rightarrow> decoder" where
  "op0x9_strip2x1 width dat p st =
     st\<lparr>mem := patternRow4Pixels2x1 (pFrame st) (dat (pData st)) p (mem st),
        pData := pData st + 1,
        pFrame := pFrame st + int width\<rparr>"

definition op0x9_strip1x2 :: "nat \<Rightarrow> payload \<Rightarrow> byte list \<Rightarrow> decoder \<Rightarrow> decoder" where
  "op0x9_strip1x2 width dat p st =
     (let pat0 = dat (pData st); pat1 = dat (pData st + 1);
          m1 = patternRow4Pixels (pFrame st) pat0 pat1 p (mem st);
          m2 = patternRow4Pixels (pFrame st + int width) pat0 pat1 p m1
      in st\<lparr>mem := m2, pData := pData st + 2,
            pFrame := pFrame st + int width + int width\<rparr>)"

definition op0x9 :: "nat \<Rightarrow> payload \<Rightarrow> decoder \<Rightarrow> decoder" where
  "op0x9 width dat st =
     (let d = pData st;
          p = p_unset[0 := dat d, 1 := dat (d + 1), 2 := dat (d + 2), 3 := dat (d + 3)];
          st1 = st\<lparr>pData := d + 4\<rparr>
      in if dat d \<le> dat (d + 1)
         then (if dat (d + 2) \<le> dat (d + 3)
               then (let st2 = for_range 8 (\<lambda>i. op0x9_row width dat p) st1
                     in st2\<lparr>pFrame := pFrame st2 - (8 * int width - 8)\<rparr>)
               else op0x9_2x2 width dat p st1)
         else (let st2 = (if dat (d + 2) \<le> dat (d + 3)
                          then for_range 8 (\<lambda>i. op0x9_strip2x1 width dat p) st1
                          else for_range 4 (\<lambda>i. op0x9_strip1x2 width dat p) st1)
               in st2\<lparr>pFrame := pFrame st2 - (8 * int width - 8)\<rparr>))"

text \<open>case 0xa: four colours per quadrant or per half.\<close>

definition op0xa_quadrant :: "nat \<Rightarrow> payload \<Rightarrow> nat \<Rightarrow> byte list \<times> decoder \<Rightarrow> byte list \<times> decoder" where
  "op0xa_quadrant width dat i ps =
     (case ps of (p, st) \<Rightarrow>
        let d = pData st;
            p' = p[0 := dat d, 1 := dat (d + 1), 2 := dat (d + 2), 3 := dat (d + 3)]
        in (p', st\<lparr>mem := patternQuadrant4Pixels width (pFrame st)
                             (dat (d + 4)) (dat (d + 5)) (dat (d + 6)) (dat (d + 7)) p' (mem st),
                    pData := d + 8,
                    pFrame := (if i AND 1 \<noteq> 0 then pFrame st - (4 * int width - 4)
                               else pFrame st + 4 * int width)\<rparr>))"

definition op0xa_half :: "nat \<Rightarrow> payload \<Rightarrow> nat \<Rightarrow> byte list \<times> decoder \<Rightarrow> byte list \<times> decoder" where
  "op0xa_half width dat i ps =
     (case ps of (p, st) \<Rightarrow>
        let p' = (if i AND 1 = 0
                  then p[0 := dat (pData st), 1 := dat (pData st + 1),
                         2 := dat (pData st + 2), 3 := dat (pData st + 3)]
                  else p);
            d = (if i AND 1 = 0 then pData st + 4 else pData st)
        in (p', st\<lparr>mem := patternQuadrant4Pixels width (pFrame st)
                             (dat d) (dat (d + 1)) (dat (d + 2)) (dat (d + 3)) p' (mem st),
                    pData := d + 4,
                    pFrame := (if i AND 1 \<noteq> 0 then pFrame st - (4 * int width - 4)
                               else pFrame st + 4 * int width)\<rparr>))"

definition op0xa_row :: "nat \<Rightarrow> payload \<Rightarrow> nat \<Rightarrow> byte list \<times> decoder \<Rightarrow> byte list \<times> decoder" where
  "op0xa_row width dat i ps =
     (case ps of (p, st) \<Rightarrow>
        let p' = (if i AND 3 = 0
                  then p[0 := dat (pData st), 1 := dat (pData st + 1),
                         2 := dat (pData st + 2), 3 := dat (pData st + 3)]
                  else p);
            d = (if i AND 3 = 0 then pData st + 4 else pData st)
        in (p', st\<lparr>mem := patternRow4Pixels (pFrame st) (dat d) (dat (d + 1)) p' (mem st),
                    pData := d + 2,
                    pFrame := pFrame st + int width\<rparr>))"

definition op0xa :: "nat \<Rightarrow> payload \<Rightarrow> decoder \<Rightarrow> decoder" where
  "op0xa width dat st =
     (if dat (pData st) \<le> dat (pData st + 1)
      then snd (for_range 4 (op0xa_quadrant width dat) (p_unset, st))
      else if dat (pData st + 12) \<le> dat (pData st + 13)
      then snd (for_range 4 (op0xa_half width dat) (p_unset, st))
      else (let st1 = snd (for_range 8 (op0xa_row width dat) (p_unset, st))
            in st1\<lparr>pFrame := pFrame st1 - (8 * int width - 8)\<rparr>))"

text \<open>cases 0xb, 0xc, 0xd: raw pixel data, one byte per pixel, per 2x2 cell, per 4x4
  quadrant.\<close>

definition op0xb_row :: "nat \<Rightarrow> payload \<Rightarrow> decoder \<Rightarrow> decoder" where
  "op0xb_row width dat st =
     st\<lparr>mem := copy_n_payload dat (pData st) 8 (pFrame st) (mem st),
        pFrame := pFrame st + int width,
        pData := pData st + 8,
        pDataRemain := pDataRemain st - 8\<rparr>"

definition op0xb :: "nat \<Rightarrow> payload \<Rightarrow> decoder \<Rightarrow> decoder" where
  "op0xb width dat st =
     (let st1 = for_range 8 (\<lambda>i. op0xb_row width dat) st
      in st1\<lparr>pFrame := pFrame st1 - (8 * int width - 8)\<rparr>)"

definition op0xc_line :: "nat \<Rightarrow> payload \<Rightarrow> decoder \<Rightarrow> decoder" where
  "op0xc_line width dat st =
     (let m1 = for_range 4 (\<lambda>k m. m(pFrame st + int (2 * k) := dat (pData st + k),
                                     pFrame st + int (2 * k + 1) := dat (pData st + k))) (mem st)
      in st\<lparr>mem := m1, pFrame := pFrame st + int width\<rparr>)"

definition op0xc_cells :: "nat \<Rightarrow> payload \<Rightarrow> decoder \<Rightarrow> decoder" where
  "op0xc_cells width dat st =
     (let st1 = for_range 2 (\<lambda>j. op0xc_line width dat) st
      in st1\<lparr>pData := pData st1 + 4, pDataRemain := pDataRemain st1 - 4\<rparr>)"

definition op0xc :: "nat \<Rightarrow> payload \<Rightarrow> decoder \<Rightarrow> decoder" where
  "op0xc width dat st =
     (let st1 = for_range 4 (\<lambda>i. op0xc_cells width dat) st
      in st1\<lparr>pFrame := pFrame st1 - (8 * int width - 8)\<rparr>)"

definition op0xd_band :: "nat \<Rightarrow> payload \<Rightarrow> decoder \<Rightarrow> decoder" where
  "op0xd_band width dat st =
     (let m1 = for_range 4 (\<lambda>j. for_range 4 (\<lambda>k m.
                  m(pFrame st + int (k * width + j) := dat (pData st),
                    pFrame st + int (k * width + j + 4) := dat (pData st + 1)))) (mem st)
      in st\<lparr>mem := m1, pFrame := pFrame st + 4 * int width,
            pData := pData st + 2, pDataRemain := pDataRemain st - 2\<rparr>)"

definition op0xd :: "nat \<Rightarrow> payload \<Rightarrow> decoder \<Rightarrow> decoder" where
  "op0xd width dat st =
     (let st1 = for_range 2 (\<lambda>i. op0xd_band width dat) st
      in st1\<lparr>pFrame := pFrame st1 - (8 * int width - 8)\<rparr>)"

text \<open>case 0xe: a solid block. case 0xf: a block dithered with two colours.\<close>

definition op0xe_row :: "nat \<Rightarrow> byte \<Rightarrow> decoder \<Rightarrow> decoder" where
  "op0xe_row width pel st =
     st\<lparr>mem := fill_n (pFrame st) 8 pel (mem st), pFrame := pFrame st + int width\<rparr>"

definition op0xe :: "nat \<Rightarrow> payload \<Rightarrow> decoder \<Rightarrow> decoder" where
  "op0xe width dat st =
     (let pel = dat (pData st);
          st1 = for_range 8 (\<lambda>i. op0xe_row width pel) st
      in st1\<lparr>pData := pData st1 + 1, pDataRemain := pDataRemain st1 - 1,
             pFrame := pFrame st1 - (8 * int width - 8)\<rparr>)"

definition op0xf_row :: "nat \<Rightarrow> payload \<Rightarrow> nat \<Rightarrow> decoder \<Rightarrow> decoder" where
  "op0xf_row width dat i st =
     (let m1 = for_range 8 (\<lambda>j m. m(pFrame st + int j := dat (pData st + ((i + j) AND 1)))) (mem st)
      in st\<lparr>mem := m1, pFrame := pFrame st + int width\<rparr>)"

definition op0xf :: "nat \<Rightarrow> payload \<Rightarrow> decoder \<Rightarrow> decoder" where
  "op0xf width dat st =
     (let st1 = for_range 8 (op0xf_row width dat) st
      in st1\<lparr>pData := pData st1 + 2, pDataRemain := pDataRemain st1 - 2,
             pFrame := pFrame st1 - (8 * int width - 8)\<rparr>)"

text \<open>The switch on the opcode. The result is \<open>None\<close> only where a filler loop does not
  leave.\<close>

definition dispatchDecoder ::
  "int \<Rightarrow> int \<Rightarrow> nat \<Rightarrow> nat \<Rightarrow> payload \<Rightarrow> byte \<Rightarrow> decoder \<Rightarrow> decoder option" where
  "dispatchDecoder vBackBuf1 vBackBuf2 width height dat codeType st =
     (if codeType = 0x0 then Some (op0x1 (op0x0 vBackBuf1 vBackBuf2 width st))
      else if codeType = 0x1 then Some (op0x1 st)
      else if codeType = 0x2 then Some (op_relFar 1 width dat st)
      else if codeType = 0x3 then Some (op_relFar (-1) width dat st)
      else if codeType = 0x4 then Some (op0x4 vBackBuf1 vBackBuf2 width dat st)
      else if codeType = 0x5 then Some (op0x5 vBackBuf1 vBackBuf2 width dat st)
      else if codeType = 0x6 then Some (op0x6 width height st)
      else if codeType = 0x7 then op0x7 width dat st
      else if codeType = 0x8 then Some (op0x8 width dat st)
      else if codeType = 0x9 then Some (op0x9 width dat st)
      else if codeType = 0xa then Some (op0xa width dat st)
      else if codeType = 0xb then Some (op0xb width dat st)
      else if codeType = 0xc then Some (op0xc width dat st)
      else if codeType = 0xd then Some (op0xd width dat st)
      else if codeType = 0xe then Some (op0xe width dat st)
      else if codeType = 0xf then Some (op0xf width dat st)
      else Some st)"

subsection \<open>Cursor bookkeeping of one dispatch\<close>

lemma for_range_0: "for_range 0 body s = s"
  by (simp add: for_range_def)

lemma for_range_Suc: "for_range (Suc n) body s = body n (for_range n body s)"
  by (simp add: for_range_def)

lemma for_range_numeral:
  "for_range (numeral k) body s = body (pred_numeral k) (for_range (pred_numeral k) body s)"
  by (simp add: numeral_eq_Suc for_range_Suc)

lemmas for_range_simps = for_range_0 for_range_Suc for_range_numeral

lemma patternRow2Pixels2_total: "\<exists>m'. patternRow2Pixels2 w f pat p m = Some m'"
  by (simp add: patternRow2Pixels2_def patternRow2Pixels2_loop.simps Let_def)

lemma op0x7_pair_proj:
  "\<exists>st'. op0x7_pair w dat p st = Some st' \<and> pFrame st' = pFrame st + 4 * int w
     \<and> pData st' = pData st + 1 \<and> pDataRemain st' = pDataRemain st
     \<and> curXb st' = curXb st \<and> curYb st' = curYb st"
proof -
  obtain m1 where m1: "patternRow2Pixels2 w (pFrame st) (dat (pData st) AND 0xf) p (mem st) = Some m1"
    using patternRow2Pixels2_total by blast
  obtain m2 where m2: "patternRow2Pixels2 w (pFrame st + 2 * int w) (drop_bit 4 (dat (pData st))) p m1 = Some m2"
    using patternRow2Pixels2_total by blast
  show ?thesis by (simp add: op0x7_pair_def m1 m2)
qed

text \<open>The number of payload bytes the dispatcher reads for an opcode, by the opcode and
  by the colour comparisons that select its branch (\<open>d\<close> is the read cursor): the
  table of the opcodes' payload, with the entries of 0x7 to 0xa as the dispatcher's
  branches have them.\<close>

definition payload_bytes :: "payload \<Rightarrow> byte \<Rightarrow> nat \<Rightarrow> nat" where
  "payload_bytes dat c d =
     (if c = 0x2 \<or> c = 0x3 \<or> c = 0x4 \<or> c = 0xe then 1
      else if c = 0x5 \<or> c = 0xf then 2
      else if c = 0x7 then (if dat d \<le> dat (d + 1) then 10 else 4)
      else if c = 0x8 then (if dat d \<le> dat (d + 1) then 16 else 12)
      else if c = 0x9 then (if dat d \<le> dat (d + 1)
                            then (if dat (d + 2) \<le> dat (d + 3) then 20 else 8) else 12)
      else if c = 0xa then (if dat d \<le> dat (d + 1) then 32 else 24)
      else if c = 0xb then 64
      else if c = 0xc then 16
      else if c = 0xd then 4
      else 0)"

lemma op0x7_proj:
  "\<exists>st'. op0x7 w dat st = Some st' \<and> pFrame st' = pFrame st + 8
     \<and> pData st' = pData st + (if dat (pData st) \<le> dat (pData st + 1) then 10 else 4)
     \<and> pDataRemain st' = pDataRemain st
     \<and> curXb st' = curXb st \<and> curYb st' = curYb st"
proof (cases "dat (pData st) \<le> dat (pData st + 1)")
  case True
  then show ?thesis
    by (simp add: op0x7_def op0x7_row_def p_unset_def for_range_simps Let_def)
next
  case False
  let ?p = "p_unset[0 := dat (pData st), 1 := dat (pData st + 1)]"
  obtain st2 where st2: "op0x7_pair w dat ?p (st\<lparr>pData := pData st + 2\<rparr>) = Some st2"
    "pFrame st2 = pFrame st + 4 * int w" "pData st2 = pData st + 3"
    "pDataRemain st2 = pDataRemain st" "curXb st2 = curXb st" "curYb st2 = curYb st"
    using op0x7_pair_proj [of w dat ?p "st\<lparr>pData := pData st + 2\<rparr>"] by auto
  obtain st3 where st3: "op0x7_pair w dat ?p st2 = Some st3"
    "pFrame st3 = pFrame st2 + 4 * int w" "pData st3 = pData st2 + 1"
    "pDataRemain st3 = pDataRemain st2" "curXb st3 = curXb st2" "curYb st3 = curYb st2"
    using op0x7_pair_proj [of w dat ?p st2] by auto
  from False st2 st3 show ?thesis
    by (simp add: op0x7_def p_unset_def Let_def)
qed

lemma op_simple_proj:
  "pFrame (op0x1 st) = pFrame st + 8" "pData (op0x1 st) = pData st"
  "pDataRemain (op0x1 st) = pDataRemain st" "curXb (op0x1 st) = curXb st" "curYb (op0x1 st) = curYb st"
  "pFrame (op0x0 b1 b2 w st) = pFrame st" "pData (op0x0 b1 b2 w st) = pData st"
  "pDataRemain (op0x0 b1 b2 w st) = pDataRemain st" "curXb (op0x0 b1 b2 w st) = curXb st"
  "curYb (op0x0 b1 b2 w st) = curYb st"
  "pFrame (op_relFar sg w dat st) = pFrame st + 8" "pData (op_relFar sg w dat st) = pData st + 1"
  "pDataRemain (op_relFar sg w dat st) = pDataRemain st - 1" "curXb (op_relFar sg w dat st) = curXb st"
  "curYb (op_relFar sg w dat st) = curYb st"
  "pFrame (op0x4 b1 b2 w dat st) = pFrame st + 8" "pData (op0x4 b1 b2 w dat st) = pData st + 1"
  "pDataRemain (op0x4 b1 b2 w dat st) = pDataRemain st - 1" "curXb (op0x4 b1 b2 w dat st) = curXb st"
  "curYb (op0x4 b1 b2 w dat st) = curYb st"
  "pFrame (op0x5 b1 b2 w dat st) = pFrame st + 8" "pData (op0x5 b1 b2 w dat st) = pData st + 2"
  "pDataRemain (op0x5 b1 b2 w dat st) = pDataRemain st - 2" "curXb (op0x5 b1 b2 w dat st) = curXb st"
  "curYb (op0x5 b1 b2 w dat st) = curYb st"
  by (simp_all add: op0x1_def op0x0_def op_relFar_def op0x4_def op0x5_def Let_def split: prod.splits)

lemma op0x8_proj:
  "pFrame (op0x8 w dat st) = pFrame st + 8"
  "pData (op0x8 w dat st) = pData st + (if dat (pData st) \<le> dat (pData st + 1) then 16 else 12)"
  "pDataRemain (op0x8 w dat st) = pDataRemain st"
  "curXb (op0x8 w dat st) = curXb st"
  "curYb (op0x8 w dat st) = curYb st"
  by (simp_all add: op0x8_def op0x8_quadrant_def op0x8_half_def op0x8_row_def for_range_simps Let_def)

lemma op0x9_proj:
  "pFrame (op0x9 w dat st) = pFrame st + 8"
  "pData (op0x9 w dat st) = pData st + (if dat (pData st) \<le> dat (pData st + 1)
       then (if dat (pData st + 2) \<le> dat (pData st + 3) then 20 else 8) else 12)"
  "pDataRemain (op0x9 w dat st) = pDataRemain st"
  "curXb (op0x9 w dat st) = curXb st"
  "curYb (op0x9 w dat st) = curYb st"
  by (simp_all add: op0x9_def op0x9_row_def op0x9_2x2_def op0x9_strip2x1_def op0x9_strip1x2_def
        for_range_simps Let_def)

lemma op0xa_proj:
  "pFrame (op0xa w dat st) = pFrame st + 8"
  "pData (op0xa w dat st) = pData st + (if dat (pData st) \<le> dat (pData st + 1) then 32 else 24)"
  "pDataRemain (op0xa w dat st) = pDataRemain st"
  "curXb (op0xa w dat st) = curXb st"
  "curYb (op0xa w dat st) = curYb st"
  by (simp_all add: op0xa_def op0xa_quadrant_def op0xa_half_def op0xa_row_def for_range_simps Let_def)

lemma op0xb_proj:
  "pFrame (op0xb w dat st) = pFrame st + 8"
  "pData (op0xb w dat st) = pData st + 64"
  "pDataRemain (op0xb w dat st) = pDataRemain st - 64"
  "curXb (op0xb w dat st) = curXb st"
  "curYb (op0xb w dat st) = curYb st"
  by (simp_all add: op0xb_def op0xb_row_def for_range_simps Let_def)

lemma op0xc_proj:
  "pFrame (op0xc w dat st) = pFrame st + 8"
  "pData (op0xc w dat st) = pData st + 16"
  "pDataRemain (op0xc w dat st) = pDataRemain st - 16"
  "curXb (op0xc w dat st) = curXb st"
  "curYb (op0xc w dat st) = curYb st"
  by (simp_all add: op0xc_def op0xc_cells_def op0xc_line_def for_range_simps Let_def)

lemma op0xd_proj:
  "pFrame (op0xd w dat st) = pFrame st + 8"
  "pData (op0xd w dat st) = pData st + 4"
  "pDataRemain (op0xd w dat st) = pDataRemain st - 4"
  "curXb (op0xd w dat st) = curXb st"
  "curYb (op0xd w dat st) = curYb st"
  by (simp_all add: op0xd_def op0xd_band_def for_range_simps Let_def)

lemma op0xe_proj:
  "pFrame (op0xe w dat st) = pFrame st + 8"
  "pData (op0xe w dat st) = pData st + 1"
  "pDataRemain (op0xe w dat st) = pDataRemain st - 1"
  "curXb (op0xe w dat st) = curXb st"
  "curYb (op0xe w dat st) = curYb st"
  by (simp_all add: op0xe_def op0xe_row_def for_range_simps Let_def)

lemma op0xf_proj:
  "pFrame (op0xf w dat st) = pFrame st + 8"
  "pData (op0xf w dat st) = pData st + 2"
  "pDataRemain (op0xf w dat st) = pDataRemain st - 2"
  "curXb (op0xf w dat st) = curXb st"
  "curYb (op0xf w dat st) = curYb st"
  by (simp_all add: op0xf_def op0xf_row_def for_range_simps Let_def)

lemma op0x6_proj:
  "pData (op0x6 w h st) = pData st"
  "pDataRemain (op0x6 w h st) = pDataRemain st"
  "mem (op0x6 w h st) = mem st"
  "curYb st \<le> curYb (op0x6 w h st)"
  by (simp_all add: op0x6_def op0x6_step_def Let_def)

lemmas op_proj = op_simple_proj op0x8_proj op0x9_proj op0xa_proj op0xb_proj op0xc_proj
  op0xd_proj op0xe_proj op0xf_proj

lemma nibble_cases:
  fixes c :: byte
  assumes "c \<le> 0xf"
  shows "c = 0 \<or> c = 1 \<or> c = 2 \<or> c = 3 \<or> c = 4 \<or> c = 5 \<or> c = 6 \<or> c = 7 \<or> c = 8
         \<or> c = 9 \<or> c = 0xa \<or> c = 0xb \<or> c = 0xc \<or> c = 0xd \<or> c = 0xe \<or> c = 0xf"
proof -
  have "unat c \<le> 15" using assms by (simp add: word_le_nat_alt)
  then have "unat c = 0 \<or> unat c = 1 \<or> unat c = 2 \<or> unat c = 3 \<or> unat c = 4 \<or> unat c = 5
     \<or> unat c = 6 \<or> unat c = 7 \<or> unat c = 8 \<or> unat c = 9 \<or> unat c = 10 \<or> unat c = 11
     \<or> unat c = 12 \<or> unat c = 13 \<or> unat c = 14 \<or> unat c = 15" by arith
  then show ?thesis by (simp add: word_unat_eq_iff)
qed

lemma low_nibble_le: "(m :: byte) AND 0xf \<le> 0xf"
  by (rule word_and_le1)

lemma high_nibble_le: "drop_bit 4 (m :: byte) \<le> 0xf"
proof -
  have "unat (drop_bit 4 m) = unat m div 16" by (simp add: drop_bit_eq_div unat_div)
  moreover have "unat m < 256" using unsigned_less [of m] by simp
  ultimately have "unat (drop_bit 4 m) \<le> 15" by simp
  then show ?thesis by (simp add: word_le_nat_alt)
qed

lemma dispatch_cursors:
  "\<exists>st'. dispatchDecoder b1 b2 w h dat c st = Some st'
     \<and> pData st' = pData st + payload_bytes dat c (pData st)
     \<and> pDataRemain st' =
           (if c = 0x7 \<or> c = 0x8 \<or> c = 0x9 \<or> c = 0xa then pDataRemain st
            else pDataRemain st - int (payload_bytes dat c (pData st)))
     \<and> (c \<noteq> 0x6 \<longrightarrow> pFrame st' = pFrame st + (if c \<le> 0xf then 8 else 0)
            \<and> curXb st' = curXb st \<and> curYb st' = curYb st)
     \<and> curYb st \<le> curYb st'"
  using op0x7_proj [of w dat st] nibble_cases [of c]
  by (auto simp add: dispatchDecoder_def payload_bytes_def op_proj op0x6_proj)

subsection \<open>decodeFrame8\<close>

text \<open>A line of \<open>con_printf(CON_CRITICAL, ...)\<close>: "danger! pointing out of bounds below
  (or above) after dispatch decoder: i, j (n) [opcode]", where n is 1 after the low nibble's
  dispatch and 2 after the high nibble's.\<close>

datatype diag = Below int int nat byte | Above int int nat byte

definition bounds_check :: "int \<Rightarrow> nat \<Rightarrow> nat \<Rightarrow> nat \<Rightarrow> byte \<Rightarrow> decoder \<Rightarrow> diag list \<Rightarrow> diag list" where
  "bounds_check vBackBuf1 width height n codeType st lg =
     (if pFrame st < vBackBuf1
      then lg @ [Below (curXb st) (curYb st) n codeType]
      else if pFrame st \<ge> vBackBuf1 + int (width * height)
      then lg @ [Above (curXb st) (curYb st) n codeType]
      else lg)"

text \<open>The inner loop \<open>for (int i=0; i<xb/2; i++)\<close>; \<open>i\<close> is \<open>curXb\<close>, which the
  dispatcher may change. \<open>pMap.front()\<close> on an empty span is undefined in the source:
  the result is \<open>None\<close>. The loop returns the rest of the map and the log with the
  decoder variables.\<close>

fun inner_loop ::
  "int \<Rightarrow> int \<Rightarrow> nat \<Rightarrow> nat \<Rightarrow> payload \<Rightarrow> int \<Rightarrow> byte list \<Rightarrow> diag list \<Rightarrow> decoder
     \<Rightarrow> (byte list \<times> diag list \<times> decoder) option" where
  "inner_loop vBackBuf1 vBackBuf2 width height dat xb [] lg st =
     (if curXb st < xb div 2 then None else Some ([], lg, st))"
| "inner_loop vBackBuf1 vBackBuf2 width height dat xb (m # pMap) lg st =
     (if curXb st < xb div 2
      then (case dispatchDecoder vBackBuf1 vBackBuf2 width height dat (m AND 0xf) st of
              None \<Rightarrow> None
            | Some st1 \<Rightarrow>
               (case dispatchDecoder vBackBuf1 vBackBuf2 width height dat (drop_bit 4 m) st1 of
                  None \<Rightarrow> None
                | Some st2 \<Rightarrow>
                    inner_loop vBackBuf1 vBackBuf2 width height dat xb pMap
                      (bounds_check vBackBuf1 width height 2 (drop_bit 4 m) st2
                         (bounds_check vBackBuf1 width height 1 (m AND 0xf) st1 lg))
                      (st2\<lparr>curXb := curXb st2 + 1\<rparr>)))
      else Some (m # pMap, lg, st))"

lemma inner_loop_curYb:
  "inner_loop b1 b2 w h dat xb pMap lg st = Some (pMap', lg', st') \<Longrightarrow> curYb st \<le> curYb st'"
proof (induction pMap arbitrary: lg st)
  case Nil
  then show ?case by (simp split: if_splits)
next
  case (Cons m pMap)
  show ?case
  proof (cases "curXb st < xb div 2")
    case False
    with Cons.prems show ?thesis by simp
  next
    case True
    obtain st1 where st1: "dispatchDecoder b1 b2 w h dat (m AND 0xf) st = Some st1"
      "curYb st \<le> curYb st1"
      using dispatch_cursors [of b1 b2 w h dat "m AND 0xf" st] by blast
    obtain st2 where st2: "dispatchDecoder b1 b2 w h dat (drop_bit 4 m) st1 = Some st2"
      "curYb st1 \<le> curYb st2"
      using dispatch_cursors [of b1 b2 w h dat "drop_bit 4 m" st1] by blast
    from Cons.prems True st1 st2
    have "curYb (st2\<lparr>curXb := curXb st2 + 1\<rparr>) \<le> curYb st'"
      by (intro Cons.IH) simp
    with st1 st2 show ?thesis by simp
  qed
qed

text \<open>The outer loop \<open>for (int j=0; j<yb; j++)\<close>; \<open>j\<close> is \<open>curYb\<close>, which the
  dispatcher never decreases.\<close>

function outer_loop ::
  "int \<Rightarrow> int \<Rightarrow> nat \<Rightarrow> nat \<Rightarrow> payload \<Rightarrow> int \<Rightarrow> int \<Rightarrow> byte list \<Rightarrow> diag list \<Rightarrow> decoder
     \<Rightarrow> (byte list \<times> diag list \<times> decoder) option" where
  "outer_loop vBackBuf1 vBackBuf2 width height dat xb yb pMap lg st =
     (if curYb st < yb
      then (case inner_loop vBackBuf1 vBackBuf2 width height dat xb pMap lg (st\<lparr>curXb := 0\<rparr>) of
              None \<Rightarrow> None
            | Some (pMap', lg', st1) \<Rightarrow>
                outer_loop vBackBuf1 vBackBuf2 width height dat xb yb pMap' lg'
                  (st1\<lparr>pFrame := pFrame st1 + 7 * int width, curYb := curYb st1 + 1\<rparr>))
      else Some (pMap, lg, st))"
  by pat_completeness auto
termination
proof (relation "measure (\<lambda>(b1, b2, w, h, dat, xb, yb, pMap, lg, st). nat (yb - curYb st))", goal_cases)
  case 1
  show ?case by simp
next
  case (2 b1 b2 w h dat xb yb pMap lg st r pMap' r' lg' st1)
  then have "curYb (st\<lparr>curXb := 0\<rparr>) \<le> curYb st1"
    by (intro inner_loop_curYb [of b1 b2 w h dat xb pMap lg _ pMap' lg']) simp
  with 2 show ?case by simp
qed

declare outer_loop.simps [simp del]

definition decodeFrame8 ::
  "int \<Rightarrow> nat \<Rightarrow> nat \<Rightarrow> int \<Rightarrow> byte list \<Rightarrow> payload \<Rightarrow> int \<Rightarrow> memory
     \<Rightarrow> (byte list \<times> diag list \<times> decoder) option" where
  "decodeFrame8 vBackBuf2 width height pFrame0 pMap dat dataRemain m =
     (let vBackBuf1 = pFrame0;
          xb = int (drop_bit 3 width);
          yb = int (drop_bit 3 height)
      in outer_loop vBackBuf1 vBackBuf2 width height dat xb yb pMap []
           \<lparr>mem = m, pFrame = pFrame0, pData = 0, pDataRemain = dataRemain,
            curXb = 0, curYb = 0\<rparr>)"

subsection \<open>What the fillers write\<close>

text \<open>The colour a two-bit pattern selects for its k-th unit (the least significant pair
  first), and the 16-bit pattern \<open>(pat1 << 8) | pat0\<close> of a row.\<close>

definition colour_index :: "'a::len word \<Rightarrow> nat \<Rightarrow> nat" where
  "colour_index pat k = unat (drop_bit (2 * k) pat AND 3)"

definition pattern16 :: "byte \<Rightarrow> byte \<Rightarrow> 16 word" where
  "pattern16 pat0 pat1 = push_bit 8 (ucast pat1) OR ucast pat0"

lemma and_bit_test: "(w AND 2 ^ n \<noteq> 0) = bit w n" for w :: "'a::len word"
  by (metis and_exp_eq_0_iff_not_bit)

lemma field_select: "drop_bit n (push_bit n a AND b) = a AND drop_bit n b" for a b :: "'a::len word"
  by (rule bit_eqI) (auto simp add: bit_simps dest: bit_imp_le_length)

lemma field_select_unat:
  "unat (drop_bit (2 * k) (push_bit (2 * k) 3 AND b)) = colour_index b k" for b :: "'a::len word"
  unfolding colour_index_def field_select by (simp add: and.commute)

lemma patternRow2Pixels_at:
  "patternRow2Pixels f pat p m a =
   (if f \<le> a \<and> a < f + 8 then p ! (if bit pat (nat (a - f)) then 1 else 0) else m a)"
proof -
  have "a < f \<or> a = f \<or> a = f + 1 \<or> a = f + 2 \<or> a = f + 3 \<or> a = f + 4 \<or> a = f + 5
        \<or> a = f + 6 \<or> a = f + 7 \<or> f + 8 \<le> a" by arith
  then show ?thesis
    using and_bit_test [of pat 0] and_bit_test [of pat 1] and_bit_test [of pat 2] and_bit_test [of pat 3] 
     and_bit_test [of pat 4] and_bit_test [of pat 5] and_bit_test [of pat 6] and_bit_test [of pat 7]
    by (elim disjE) (simp_all add: patternRow2Pixels_def patternRow2Pixels_loop.simps and.commute)
qed

lemma patternRow4Pixels_at:
  "patternRow4Pixels f pat0 pat1 p m a =
   (if f \<le> a \<and> a < f + 8 then p ! colour_index (pattern16 pat0 pat1) (nat (a - f)) else m a)"
proof -
  let ?b = "pattern16 pat0 pat1"
  note sel = field_select_unat [of 0 ?b] field_select_unat [of 1 ?b] field_select_unat [of 2 ?b]
     field_select_unat [of 3 ?b] field_select_unat [of 4 ?b] field_select_unat [of 5 ?b]
     field_select_unat [of 6 ?b] field_select_unat [of 7 ?b]
  have "a < f \<or> a = f \<or> a = f + 1 \<or> a = f + 2 \<or> a = f + 3 \<or> a = f + 4 \<or> a = f + 5
        \<or> a = f + 6 \<or> a = f + 7 \<or> f + 8 \<le> a" by arith
  then show ?thesis
    using sel
    by (elim disjE) (simp_all add: patternRow4Pixels_def patternRow4Pixels_loop.simps pattern16_def [symmetric] del: add_2_eq_Suc add_2_eq_Suc')
qed

lemma patternRow4Pixels2x1_at:
  "patternRow4Pixels2x1 f pat p m a =
   (if f \<le> a \<and> a < f + 8 then p ! colour_index pat (nat (a - f) div 2) else m a)"
proof -
  note sel = field_select_unat [of 0 pat] field_select_unat [of 1 pat] field_select_unat [of 2 pat]
     field_select_unat [of 3 pat]
  have "a < f \<or> a = f \<or> a = f + 1 \<or> a = f + 2 \<or> a = f + 3 \<or> a = f + 4 \<or> a = f + 5
        \<or> a = f + 6 \<or> a = f + 7 \<or> f + 8 \<le> a" by arith
  then show ?thesis
    using sel
    by (elim disjE) (simp_all add: patternRow4Pixels2x1_def patternRow4Pixels2x1_loop.simps Let_def del: add_2_eq_Suc add_2_eq_Suc')
qed

lemma patternRow4Pixels2_at:
  assumes "8 \<le> w"
  shows "patternRow4Pixels2 w f pat p m a =
   (if f \<le> a \<and> a < f + 8 then p ! colour_index pat (nat (a - f) div 2)
    else if f + int w \<le> a \<and> a < f + int w + 8 then p ! colour_index pat (nat (a - f - int w) div 2)
    else m a)"
proof -
  note sel = field_select_unat [of 0 pat] field_select_unat [of 1 pat] field_select_unat [of 2 pat]
     field_select_unat [of 3 pat]
  have "a = f \<or> a = f + 1 \<or> a = f + 2 \<or> a = f + 3 \<or> a = f + 4 \<or> a = f + 5
        \<or> a = f + 6 \<or> a = f + 7
        \<or> a = f + int w \<or> a = f + int w + 1 \<or> a = f + int w + 2 \<or> a = f + int w + 3
        \<or> a = f + int w + 4 \<or> a = f + int w + 5 \<or> a = f + int w + 6 \<or> a = f + int w + 7
        \<or> a < f \<or> (f + 8 \<le> a \<and> a < f + int w) \<or> f + int w + 8 \<le> a" by arith
  then show ?thesis
    using sel assms
    by (elim disjE) (simp_all add: patternRow4Pixels2_def patternRow4Pixels2_loop.simps Let_def
          del: add_2_eq_Suc add_2_eq_Suc')
qed

definition patternRow2Pixels2_mem :: "nat \<Rightarrow> int \<Rightarrow> byte \<Rightarrow> byte list \<Rightarrow> memory \<Rightarrow> memory" where
  "patternRow2Pixels2_mem width pF pat p m = the (patternRow2Pixels2 width pF pat p m)"

lemma patternRow2Pixels2_returns:
  "patternRow2Pixels2 w f pat p m = Some (patternRow2Pixels2_mem w f pat p m)"
  by (simp add: patternRow2Pixels2_mem_def patternRow2Pixels2_def patternRow2Pixels2_loop.simps Let_def)

lemma patternRow2Pixels2_at:
  assumes "8 \<le> w"
  shows "patternRow2Pixels2_mem w f pat p m a =
   (if f \<le> a \<and> a < f + 8 then p ! (if bit pat (nat (a - f) div 2) then 1 else 0)
    else if f + int w \<le> a \<and> a < f + int w + 8
    then p ! (if bit pat (nat (a - f - int w) div 2) then 1 else 0)
    else m a)"
proof -
  have "a = f \<or> a = f + 1 \<or> a = f + 2 \<or> a = f + 3 \<or> a = f + 4 \<or> a = f + 5
        \<or> a = f + 6 \<or> a = f + 7
        \<or> a = f + int w \<or> a = f + int w + 1 \<or> a = f + int w + 2 \<or> a = f + int w + 3
        \<or> a = f + int w + 4 \<or> a = f + int w + 5 \<or> a = f + int w + 6 \<or> a = f + int w + 7
        \<or> a < f \<or> (f + 8 \<le> a \<and> a < f + int w) \<or> f + int w + 8 \<le> a" by arith
  then show ?thesis
    using assms and_bit_test [of pat 0] and_bit_test [of pat 1] and_bit_test [of pat 2] and_bit_test [of pat 3]
    by (elim disjE)
       (simp_all add: patternRow2Pixels2_mem_def patternRow2Pixels2_def patternRow2Pixels2_loop.simps
          Let_def and.commute)
qed

lemma row_cases: "r < 8 \<Longrightarrow> r = 0 \<or> r = 1 \<or> r = 2 \<or> r = 3 \<or> r = 4 \<or> r = 5 \<or> r = 6 \<or> r = (7::nat)"
  by arith

lemma numeral_add_Suc: "numeral k + n = Suc (pred_numeral k + n)" "n + numeral k = Suc (pred_numeral k + n)"
  by (simp_all add: numeral_eq_Suc)

lemma op0x7_rows_mem:
  assumes "8 \<le> w" "r < 8" "c < 8" "dat (pData st) \<le> dat (pData st + 1)"
  shows "\<exists>st'. op0x7 w dat st = Some st' \<and>
     mem st' (pFrame st + int r * int w + int c) =
       (if bit (dat (pData st + 2 + r)) c then dat (pData st + 1) else dat (pData st))"
  using row_cases [OF assms(2)] assms(1,3,4)
  by (elim disjE)
     (simp_all add: op0x7_def op0x7_row_def for_range_simps patternRow2Pixels_at p_unset_def Let_def numeral_add_Suc)

lemma op0x7_cells_mem:
  assumes "8 \<le> w" "r < 8" "c < 8" "\<not> dat (pData st) \<le> dat (pData st + 1)"
  shows "\<exists>st'. op0x7 w dat st = Some st' \<and>
     mem st' (pFrame st + int r * int w + int c) =
       (let b = dat (pData st + 2 + r div 4);
            pat = (if (r div 2) mod 2 = 0 then b AND 0xf else drop_bit 4 b)
        in if bit pat (c div 2) then dat (pData st + 1) else dat (pData st))"
  using row_cases [OF assms(2)] assms(1,3,4)
  by (elim disjE)
     (simp_all add: op0x7_def op0x7_pair_def patternRow2Pixels2_returns patternRow2Pixels2_at
        p_unset_def Let_def numeral_add_Suc)

subsection \<open>What copyFrame writes\<close>

lemma c_div_mod_nonneg:
  "0 \<le> a \<Longrightarrow> 0 < b \<Longrightarrow> c_div a b = a div b"
  "0 \<le> a \<Longrightarrow> 0 < b \<Longrightarrow> c_mod a b = a mod b"
proof -
  assume a: "0 \<le> a" "0 < b"
  show d: "c_div a b = a div b"
  proof (cases "a = 0")
    case True then show ?thesis by (simp add: c_div_def)
  next
    case False
    with a show ?thesis by (simp add: c_div_def sgn_if)
  qed
  show "c_mod a b = a mod b"
    unfolding c_mod_def d by (simp add: minus_mult_div_eq_mod)
qed

lemma copy_n_forward:
  assumes "pDest + 8 \<le> pSrc"
  shows "copy_n pSrc 8 pDest m a = (if pDest \<le> a \<and> a < pDest + 8 then m (pSrc + (a - pDest)) else m a)"
proof -
  have "a < pDest \<or> a = pDest \<or> a = pDest + 1 \<or> a = pDest + 2 \<or> a = pDest + 3 \<or> a = pDest + 4
     \<or> a = pDest + 5 \<or> a = pDest + 6 \<or> a = pDest + 7 \<or> pDest + 8 \<le> a" by arith
  then show ?thesis
    using assms by (elim disjE) (simp_all add: copy_n_def for_range_simps)
qed

lemma copyFrame_forward:
  assumes "pDest + 8 \<le> pSrc" "8 \<le> w" "r < 8" "c < 8"
  shows "copyFrame w pDest pSrc m (pDest + int r * int w + int c) = m (pSrc + int r * int w + int c)"
  using row_cases [OF assms(3)] assms(1,2,4)
  by (elim disjE) (simp_all add: copyFrame_def copyFrame_row_def for_range_simps copy_n_forward add_ac)

lemma relFar_positive:
  assumes "0 \<le> B"
  shows "relFar B 1 =
     (if B < 56 then (8 + B mod 7, B div 7) else (-14 + (B - 56) mod 29, 8 + (B - 56) div 29))"
  using assms by (simp add: relFar_def c_div_mod_nonneg)

lemma relFar_positive_ahead:
  assumes "0 \<le> B" "8 \<le> w" "relFar B 1 = (x, y)"
  shows "8 \<le> x + y * int w"
proof (cases "B < 56")
  case True
  then have "x = 8 + B mod 7" "y = B div 7"
    using assms by (simp_all add: relFar_positive)
  moreover have "0 \<le> B mod 7" "0 \<le> B div 7" using assms(1) by simp_all
  ultimately show ?thesis by simp
next
  case False
  then have xy: "x = -14 + (B - 56) mod 29" "y = 8 + (B - 56) div 29"
    using assms by (simp_all add: relFar_positive)
  have "0 \<le> (B - 56) mod 29" "0 \<le> (B - 56) div 29" using False by simp_all
  then have "-14 \<le> x" "8 \<le> y" using xy by simp_all
  then have "8 * int w \<le> y * int w" by (intro mult_right_mono) simp_all
  with \<open>-14 \<le> x\<close> assms(2) show ?thesis by linarith
qed

lemma op_relFar_positive_mem:
  assumes "8 \<le> w" "r < 8" "c < 8" "relFar (uint (dat (pData st))) 1 = (x, y)"
  shows "mem (op_relFar 1 w dat st) (pFrame st + int r * int w + int c) =
         mem st (pFrame st + x + y * int w + int r * int w + int c)"
proof -
  have "8 \<le> x + y * int w"
    using relFar_positive_ahead [OF _ assms(1,4)] by simp
  then have "pFrame st + 8 \<le> pFrame st + x + y * int w" by simp
  from copyFrame_forward [OF this assms(1-3), of "mem st"] assms(4)
  show ?thesis by (simp add: op_relFar_def)
qed

subsection \<open>What opcode 0x9 writes\<close>

lemma op0x9_1x1_mem:
  assumes "8 \<le> w" "r < 8" "c < 8"
    "dat (pData st) \<le> dat (pData st + 1)" "dat (pData st + 2) \<le> dat (pData st + 3)"
  shows "mem (op0x9 w dat st) (pFrame st + int r * int w + int c) =
     [dat (pData st), dat (pData st + 1), dat (pData st + 2), dat (pData st + 3)]
       ! colour_index (pattern16 (dat (pData st + 4 + 2 * r)) (dat (pData st + 4 + 2 * r + 1))) c"
  using row_cases [OF assms(2)] assms(1,3,4,5)
  by (elim disjE)
     (simp_all add: op0x9_def op0x9_row_def for_range_simps patternRow4Pixels_at
        p_unset_def Let_def numeral_add_Suc)

lemma op0x9_2x2_mem:
  assumes "8 \<le> w" "r < 8" "c < 8"
    "dat (pData st) \<le> dat (pData st + 1)" "\<not> dat (pData st + 2) \<le> dat (pData st + 3)"
  shows "mem (op0x9 w dat st) (pFrame st + int r * int w + int c) =
     [dat (pData st), dat (pData st + 1), dat (pData st + 2), dat (pData st + 3)]
       ! colour_index (dat (pData st + 4 + r div 2)) (c div 2)"
  using row_cases [OF assms(2)] assms(1,3,4,5)
  by (elim disjE)
     (simp_all add: op0x9_def op0x9_2x2_def patternRow4Pixels2_at
        p_unset_def Let_def numeral_add_Suc)

lemma op0x9_2x1_mem:
  assumes "8 \<le> w" "r < 8" "c < 8"
    "\<not> dat (pData st) \<le> dat (pData st + 1)" "dat (pData st + 2) \<le> dat (pData st + 3)"
  shows "mem (op0x9 w dat st) (pFrame st + int r * int w + int c) =
     [dat (pData st), dat (pData st + 1), dat (pData st + 2), dat (pData st + 3)]
       ! colour_index (dat (pData st + 4 + r)) (c div 2)"
  using row_cases [OF assms(2)] assms(1,3,4,5)
  by (elim disjE)
     (simp_all add: op0x9_def op0x9_strip2x1_def for_range_simps patternRow4Pixels2x1_at
        p_unset_def Let_def numeral_add_Suc)

lemma op0x9_1x2_mem:
  assumes "8 \<le> w" "r < 8" "c < 8"
    "\<not> dat (pData st) \<le> dat (pData st + 1)" "\<not> dat (pData st + 2) \<le> dat (pData st + 3)"
  shows "mem (op0x9 w dat st) (pFrame st + int r * int w + int c) =
     [dat (pData st), dat (pData st + 1), dat (pData st + 2), dat (pData st + 3)]
       ! colour_index (pattern16 (dat (pData st + 4 + 2 * (r div 2)))
                                  (dat (pData st + 4 + 2 * (r div 2) + 1))) c"
  using row_cases [OF assms(2)] assms(1,3,4,5)
  by (elim disjE)
     (simp_all add: op0x9_def op0x9_strip1x2_def for_range_simps patternRow4Pixels_at
        p_unset_def Let_def numeral_add_Suc)

subsection \<open>The block grid as a counted walk\<close>

text \<open>The walk of the block grid as a count of rows and of map bytes per row: each of
  the rows takes the next \<open>n\<close> map bytes in order; a byte's low nibble is dispatched, then
  its high nibble, each dispatch followed by the check of the cursor; after the row's
  bytes the cursor moves on by 7 * width.\<close>

fun grid_row ::
  "int \<Rightarrow> int \<Rightarrow> nat \<Rightarrow> nat \<Rightarrow> payload \<Rightarrow> nat \<Rightarrow> byte list \<Rightarrow> diag list \<Rightarrow> decoder
     \<Rightarrow> (byte list \<times> diag list \<times> decoder) option" where
  "grid_row vBackBuf1 vBackBuf2 width height dat 0 pMap lg st = Some (pMap, lg, st)"
| "grid_row vBackBuf1 vBackBuf2 width height dat (Suc n) [] lg st = None"
| "grid_row vBackBuf1 vBackBuf2 width height dat (Suc n) (m # pMap) lg st =
     (case dispatchDecoder vBackBuf1 vBackBuf2 width height dat (m AND 0xf) st of
        None \<Rightarrow> None
      | Some st1 \<Rightarrow>
         (case dispatchDecoder vBackBuf1 vBackBuf2 width height dat (drop_bit 4 m) st1 of
            None \<Rightarrow> None
          | Some st2 \<Rightarrow>
              grid_row vBackBuf1 vBackBuf2 width height dat n pMap
                (bounds_check vBackBuf1 width height 2 (drop_bit 4 m) st2
                   (bounds_check vBackBuf1 width height 1 (m AND 0xf) st1 lg))
                (st2\<lparr>curXb := curXb st2 + 1\<rparr>)))"

fun grid_rows ::
  "int \<Rightarrow> int \<Rightarrow> nat \<Rightarrow> nat \<Rightarrow> payload \<Rightarrow> nat \<Rightarrow> nat \<Rightarrow> byte list \<Rightarrow> diag list \<Rightarrow> decoder
     \<Rightarrow> (byte list \<times> diag list \<times> decoder) option" where
  "grid_rows vBackBuf1 vBackBuf2 width height dat n 0 pMap lg st = Some (pMap, lg, st)"
| "grid_rows vBackBuf1 vBackBuf2 width height dat n (Suc k) pMap lg st =
     (case grid_row vBackBuf1 vBackBuf2 width height dat n pMap lg (st\<lparr>curXb := 0\<rparr>) of
        None \<Rightarrow> None
      | Some (pMap', lg', st1) \<Rightarrow>
          grid_rows vBackBuf1 vBackBuf2 width height dat n k pMap' lg'
            (st1\<lparr>pFrame := pFrame st1 + 7 * int width, curYb := curYb st1 + 1\<rparr>))"

definition grid_walk ::
  "int \<Rightarrow> nat \<Rightarrow> nat \<Rightarrow> int \<Rightarrow> byte list \<Rightarrow> payload \<Rightarrow> int \<Rightarrow> memory
     \<Rightarrow> (byte list \<times> diag list \<times> decoder) option" where
  "grid_walk vBackBuf2 width height pFrame0 pMap dat dataRemain m =
     grid_rows pFrame0 vBackBuf2 width height dat (width div 16) (height div 8) pMap []
       \<lparr>mem = m, pFrame = pFrame0, pData = 0, pDataRemain = dataRemain, curXb = 0, curYb = 0\<rparr>"

definition no_skip :: "byte \<Rightarrow> bool" where
  "no_skip m = (m AND 0xf \<noteq> 0x6 \<and> drop_bit 4 m \<noteq> 0x6)"

lemma dispatch_keeps_counters:
  assumes "c \<noteq> 0x6"
  shows "\<exists>st'. dispatchDecoder b1 b2 w h dat c st = Some st'
           \<and> curXb st' = curXb st \<and> curYb st' = curYb st"
  using dispatch_cursors [of b1 b2 w h dat c st] assms by blast

lemma inner_loop_grid_row:
  assumes "curXb st = xb div 2 - int k" "\<forall>m \<in> set pMap. no_skip m"
  shows "inner_loop b1 b2 w h dat xb pMap lg st = grid_row b1 b2 w h dat k pMap lg st"
  using assms
proof (induction k arbitrary: pMap lg st)
  case 0
  then show ?case by (cases pMap) simp_all
next
  case (Suc k)
  then have lt: "curXb st < xb div 2" by simp
  show ?case
  proof (cases pMap)
    case Nil
    with lt show ?thesis by simp
  next
    case (Cons m rest)
    with Suc.prems have ns: "m AND 0xf \<noteq> 0x6" "drop_bit 4 m \<noteq> 0x6" and rest: "\<forall>m \<in> set rest. no_skip m"
      by (simp_all add: no_skip_def)
    obtain st1 where st1: "dispatchDecoder b1 b2 w h dat (m AND 0xf) st = Some st1"
      "curXb st1 = curXb st"
      using dispatch_keeps_counters [OF ns(1)] by blast
    obtain st2 where st2: "dispatchDecoder b1 b2 w h dat (drop_bit 4 m) st1 = Some st2"
      "curXb st2 = curXb st1"
      using dispatch_keeps_counters [OF ns(2)] by blast
    have "curXb (st2\<lparr>curXb := curXb st2 + 1\<rparr>) = xb div 2 - int k"
      using Suc.prems(1) st1(2) st2(2) by simp
    from Suc.IH [OF this rest] lt st1 st2 Cons show ?thesis by simp
  qed
qed

lemma grid_row_drop:
  assumes "grid_row b1 b2 w h dat n pMap lg st = Some (pMap', lg', st')"
  shows "pMap' = drop n pMap"
  using assms
proof (induction n arbitrary: pMap lg st)
  case 0
  then show ?case by simp
next
  case (Suc n)
  then show ?case
    by (cases pMap) (auto split: option.splits)
qed

lemma grid_row_result:
  assumes "grid_row b1 b2 w h dat n pMap lg st = Some (pMap', lg', st')" "\<forall>m \<in> set pMap. no_skip m"
  shows "pMap' = drop n pMap \<and> n \<le> length pMap \<and> curYb st' = curYb st"
  using assms
proof (induction n arbitrary: pMap lg st)
  case 0
  then show ?case by simp
next
  case (Suc n)
  show ?case
  proof (cases pMap)
    case Nil
    with Suc.prems show ?thesis by simp
  next
    case (Cons m rest)
    with Suc.prems have ns: "m AND 0xf \<noteq> 0x6" "drop_bit 4 m \<noteq> 0x6" and rest: "\<forall>m \<in> set rest. no_skip m"
      by (simp_all add: no_skip_def)
    obtain st1 where st1: "dispatchDecoder b1 b2 w h dat (m AND 0xf) st = Some st1"
      "curYb st1 = curYb st"
      using dispatch_keeps_counters [OF ns(1)] by blast
    obtain st2 where st2: "dispatchDecoder b1 b2 w h dat (drop_bit 4 m) st1 = Some st2"
      "curYb st2 = curYb st1"
      using dispatch_keeps_counters [OF ns(2)] by blast
    from Suc.prems(1) Cons st1 st2
    have "grid_row b1 b2 w h dat n rest
            (bounds_check b1 w h 2 (drop_bit 4 m) st2 (bounds_check b1 w h 1 (m AND 0xf) st1 lg))
            (st2\<lparr>curXb := curXb st2 + 1\<rparr>) = Some (pMap', lg', st')"
      by simp
    from Suc.IH [OF this rest] st1 st2 Cons show ?thesis by simp
  qed
qed

lemma outer_loop_grid_rows:
  assumes "curYb st = yb - int k" "0 \<le> xb" "\<forall>m \<in> set pMap. no_skip m"
  shows "outer_loop b1 b2 w h dat xb yb pMap lg st
         = grid_rows b1 b2 w h dat (nat (xb div 2)) k pMap lg st"
  using assms
proof (induction k arbitrary: pMap lg st)
  case 0
  then show ?case by (simp add: outer_loop.simps)
next
  case (Suc k)
  then have lt: "curYb st < yb" by simp
  have start: "curXb (st\<lparr>curXb := 0\<rparr>) = xb div 2 - int (nat (xb div 2))"
    using Suc.prems(2) by simp
  note row = inner_loop_grid_row [OF start Suc.prems(3), of b1 b2 w h dat lg]
  show ?case
  proof (cases "grid_row b1 b2 w h dat (nat (xb div 2)) pMap lg (st\<lparr>curXb := 0\<rparr>)")
    case None
    with row lt show ?thesis by (simp add: outer_loop.simps)
  next
    case (Some res)
    obtain pMap' lg' st1 where res: "res = (pMap', lg', st1)" by (cases res)
    from grid_row_result [OF Some [unfolded res] Suc.prems(3)]
    have r: "pMap' = drop (nat (xb div 2)) pMap" "curYb st1 = curYb st" by simp_all
    have rest: "\<forall>m \<in> set pMap'. no_skip m"
      using Suc.prems(3) r(1) by (auto dest: in_set_dropD)
    have "curYb (st1\<lparr>pFrame := pFrame st1 + 7 * int w, curYb := curYb st1 + 1\<rparr>) = yb - int k"
      using Suc.prems(1) r(2) by simp
    from Suc.IH [OF this Suc.prems(2) rest] row Some res lt
    show ?thesis by (simp add: outer_loop.simps)
  qed
qed

lemma decodeFrame8_grid_walk:
  assumes "\<forall>m \<in> set pMap. no_skip m"
  shows "decodeFrame8 b2 w h f pMap dat n m = grid_walk b2 w h f pMap dat n m"
proof -
  have "nat (int (w div 8) div 2) = w div 16"
    by (simp add: zdiv_int [symmetric] div_mult2_eq [symmetric] del: zdiv_int)
  with outer_loop_grid_rows [of _ "int (h div 8)" "h div 8" "int (w div 8)" pMap]
  show ?thesis
    using assms by (simp add: decodeFrame8_def grid_walk_def Let_def drop_bit_eq_div)
qed

lemma dispatch_total: "\<exists>st'. dispatchDecoder b1 b2 w h dat c st = Some st'"
  using dispatch_cursors [of b1 b2 w h dat c st] by blast

lemma grid_row_returns:
  "(\<exists>res. grid_row b1 b2 w h dat n pMap lg st = Some res) = (n \<le> length pMap)"
proof (induction n arbitrary: pMap lg st)
  case 0
  then show ?case by simp
next
  case (Suc n)
  show ?case
  proof (cases pMap)
    case Nil
    then show ?thesis by simp
  next
    case (Cons m rest)
    obtain st1 where st1: "dispatchDecoder b1 b2 w h dat (m AND 0xf) st = Some st1"
      using dispatch_total by blast
    obtain st2 where st2: "dispatchDecoder b1 b2 w h dat (drop_bit 4 m) st1 = Some st2"
      using dispatch_total by blast
    show ?thesis using Suc.IH [of rest] Cons st1 st2 by simp
  qed
qed

lemma grid_row_cursor:
  assumes "grid_row b1 b2 w h dat n pMap lg st = Some (pMap', lg', st')" "\<forall>m \<in> set pMap. no_skip m"
  shows "pFrame st' = pFrame st + 16 * int n"
  using assms
proof (induction n arbitrary: pMap lg st)
  case 0
  then show ?case by simp
next
  case (Suc n)
  show ?case
  proof (cases pMap)
    case Nil
    with Suc.prems show ?thesis by simp
  next
    case (Cons m rest)
    with Suc.prems have ns: "m AND 0xf \<noteq> 0x6" "drop_bit 4 m \<noteq> 0x6" and rest: "\<forall>m \<in> set rest. no_skip m"
      by (simp_all add: no_skip_def)
    obtain st1 where st1: "dispatchDecoder b1 b2 w h dat (m AND 0xf) st = Some st1"
      "pFrame st1 = pFrame st + 8"
      using dispatch_cursors [of b1 b2 w h dat "m AND 0xf" st] ns(1) low_nibble_le [of m] by auto
    obtain st2 where st2: "dispatchDecoder b1 b2 w h dat (drop_bit 4 m) st1 = Some st2"
      "pFrame st2 = pFrame st1 + 8"
      using dispatch_cursors [of b1 b2 w h dat "drop_bit 4 m" st1] ns(2) high_nibble_le [of m] by auto
    from Suc.prems(1) Cons st1 st2
    have "grid_row b1 b2 w h dat n rest
            (bounds_check b1 w h 2 (drop_bit 4 m) st2 (bounds_check b1 w h 1 (m AND 0xf) st1 lg))
            (st2\<lparr>curXb := curXb st2 + 1\<rparr>) = Some (pMap', lg', st')"
      by simp
    from Suc.IH [OF this rest] st1 st2 show ?thesis by simp
  qed
qed

lemma grid_rows_cursor:
  assumes "grid_rows b1 b2 w h dat n k pMap lg st = Some (pMap', lg', st')"
    "\<forall>m \<in> set pMap. no_skip m"
  shows "pFrame st' = pFrame st + int k * (16 * int n + 7 * int w) \<and> pMap' = drop (n * k) pMap"
  using assms
proof (induction k arbitrary: pMap lg st)
  case 0
  then show ?case by simp
next
  case (Suc k)
  from Suc.prems(1) obtain pMap1 lg1 st1 where
    row: "grid_row b1 b2 w h dat n pMap lg (st\<lparr>curXb := 0\<rparr>) = Some (pMap1, lg1, st1)"
    and rows: "grid_rows b1 b2 w h dat n k pMap1 lg1
                 (st1\<lparr>pFrame := pFrame st1 + 7 * int w, curYb := curYb st1 + 1\<rparr>) = Some (pMap', lg', st')"
    by (auto split: option.splits)
  have p1: "pMap1 = drop n pMap" using grid_row_result [OF row Suc.prems(2)] by simp
  then have rest: "\<forall>m \<in> set pMap1. no_skip m"
    using Suc.prems(2) by (auto dest: in_set_dropD)
  have c1: "pFrame st1 = pFrame st + 16 * int n"
    using grid_row_cursor [OF row Suc.prems(2)] by simp
  from Suc.IH [OF rows rest] c1 p1 show ?case
    by (simp add: algebra_simps)
qed

lemma grid_rows_returns:
  assumes "n * k \<le> length pMap" "\<forall>m \<in> set pMap. no_skip m"
  shows "\<exists>res. grid_rows b1 b2 w h dat n k pMap lg st = Some res"
  using assms
proof (induction k arbitrary: pMap lg st)
  case 0
  then show ?case by simp
next
  case (Suc k)
  then have "n \<le> length pMap" by (metis le_add1 le_trans mult_Suc_right)
  then obtain res where "grid_row b1 b2 w h dat n pMap lg (st\<lparr>curXb := 0\<rparr>) = Some res"
    using grid_row_returns by blast
  then obtain pMap1 lg1 st1 where
    row: "grid_row b1 b2 w h dat n pMap lg (st\<lparr>curXb := 0\<rparr>) = Some (pMap1, lg1, st1)"
    by (cases res) auto
  have p1: "pMap1 = drop n pMap" using grid_row_result [OF row Suc.prems(2)] by simp
  then have rest: "\<forall>m \<in> set pMap1. no_skip m"
    using Suc.prems(2) by (auto dest: in_set_dropD)
  have "n * k \<le> length pMap1" using p1 Suc.prems(1) by simp
  from Suc.IH [OF this rest] row show ?case by simp
qed

lemmas decode_eval = decodeFrame8_def outer_loop.simps dispatchDecoder_def bounds_check_def
  op0x1_def op0x6_def op0x6_step_def Let_def drop_bit_eq_div

subsection \<open>Where one dispatch writes\<close>

text \<open>An address outside the 8x8 block at f, in a frame w bytes wide.\<close>

definition outside_block :: "int \<Rightarrow> nat \<Rightarrow> int \<Rightarrow> bool" where
  "outside_block f w a = (\<forall>r<8. a < f + int r * int w \<or> f + int r * int w + 8 \<le> a)"

lemma outside_block_cases:
  assumes "outside_block f w a"
  shows "a < f \<or> (f + 8 \<le> a \<and> a < f + int w) \<or> (f + int w + 8 \<le> a \<and> a < f + 2 * int w)
     \<or> (f + 2 * int w + 8 \<le> a \<and> a < f + 3 * int w) \<or> (f + 3 * int w + 8 \<le> a \<and> a < f + 4 * int w)
     \<or> (f + 4 * int w + 8 \<le> a \<and> a < f + 5 * int w) \<or> (f + 5 * int w + 8 \<le> a \<and> a < f + 6 * int w)
     \<or> (f + 6 * int w + 8 \<le> a \<and> a < f + 7 * int w) \<or> f + 7 * int w + 8 \<le> a"
proof -
  have r: "\<And>r. r < 8 \<Longrightarrow> a < f + int r * int w \<or> f + int r * int w + 8 \<le> a"
    using assms by (simp add: outside_block_def)
  from r [of 0] r [of 1] r [of 2] r [of 3] r [of 4] r [of 5] r [of 6] r [of 7]
  show ?thesis by simp linarith
qed

lemma copy_n_outside:
  assumes "a < d \<or> d + 8 \<le> a"
  shows "copy_n s 8 d m a = m a"
  using assms by (elim disjE) (simp_all add: copy_n_def for_range_simps)

lemma copy_n_payload_outside:
  assumes "a < d \<or> d + 8 \<le> a"
  shows "copy_n_payload dat s 8 d m a = m a"
  using assms by (elim disjE) (simp_all add: copy_n_payload_def for_range_simps)

lemma fill_n_outside:
  assumes "a < d \<or> d + 8 \<le> a"
  shows "fill_n d 8 v m a = m a"
  using assms by (elim disjE) (simp_all add: fill_n_def for_range_simps)

lemma patternRow4Pixels2_outside:
  assumes "a < f \<or> f + 8 \<le> a" "a < f + int w \<or> f + int w + 8 \<le> a"
  shows "patternRow4Pixels2 w f pat p m a = m a"
  using assms
  by (elim disjE)
     (simp_all add: patternRow4Pixels2_def patternRow4Pixels2_loop.simps Let_def)

lemma patternQuadrant2Pixels_outside:
  assumes "a < f \<or> f + 4 \<le> a" "a < f + int w \<or> f + int w + 4 \<le> a"
    "a < f + 2 * int w \<or> f + 2 * int w + 4 \<le> a" "a < f + 3 * int w \<or> f + 3 * int w + 4 \<le> a"
  shows "patternQuadrant2Pixels w f pat0 pat1 p m a = m a"
  using assms
  by (elim disjE)
     (simp_all add: patternQuadrant2Pixels_def patternQuadrant2Pixels_step_def Let_def for_range_simps)

lemma patternRow2Pixels2_outside:
  assumes "a < f \<or> f + 8 \<le> a" "a < f + int w \<or> f + int w + 8 \<le> a"
  shows "patternRow2Pixels2_mem w f pat p m a = m a"
  using assms
  by (elim disjE)
     (simp_all add: patternRow2Pixels2_mem_def patternRow2Pixels2_def patternRow2Pixels2_loop.simps Let_def)

lemma patternQuadrant4Pixels_outside:
  assumes "a < f \<or> f + 4 \<le> a" "a < f + int w \<or> f + int w + 4 \<le> a"
    "a < f + 2 * int w \<or> f + 2 * int w + 4 \<le> a" "a < f + 3 * int w \<or> f + 3 * int w + 4 \<le> a"
  shows "patternQuadrant4Pixels w f pat0 pat1 pat2 pat3 p m a = m a"
  using assms
  by (elim disjE)
     (simp_all add: patternQuadrant4Pixels_def patternQuadrant4Pixels_step_def Let_def for_range_simps)

lemma copyFrame_outside:
  assumes "outside_block f w a"
  shows "copyFrame w f s m a = m a"
  using outside_block_cases [OF assms]
  by (elim disjE) (simp_all add: copyFrame_def copyFrame_row_def for_range_simps copy_n_outside)

lemma op_copy_outside:
  assumes "outside_block (pFrame st) w a"
  shows "mem (op0x0 b1 b2 w st) a = mem st a"
    "mem (op_relFar sg w dat st) a = mem st a"
    "mem (op0x4 b1 b2 w dat st) a = mem st a"
    "mem (op0x5 b1 b2 w dat st) a = mem st a"
  using assms
  by (simp_all add: op0x0_def op_relFar_def op0x4_def op0x5_def Let_def copyFrame_outside
        split: prod.splits)

lemma op0x7_outside:
  assumes "outside_block (pFrame st) w a"
  shows "map_option (\<lambda>s. mem s a) (op0x7 w dat st) = Some (mem st a)"
  using outside_block_cases [OF assms]
  by (elim disjE)
     (simp_all add: op0x7_def op0x7_row_def op0x7_pair_def for_range_simps Let_def
        patternRow2Pixels_at patternRow2Pixels2_returns patternRow2Pixels2_outside)

lemma op0x8_outside:
  assumes "outside_block (pFrame st) w a"
  shows "mem (op0x8 w dat st) a = mem st a"
  using outside_block_cases [OF assms]
  by (elim disjE)
     (simp_all add: op0x8_def op0x8_quadrant_def op0x8_half_def op0x8_row_def for_range_simps Let_def
        patternRow2Pixels_at patternQuadrant2Pixels_outside)

lemma op0x9_outside:
  assumes "outside_block (pFrame st) w a"
  shows "mem (op0x9 w dat st) a = mem st a"
  using outside_block_cases [OF assms]
  by (elim disjE)
     (simp_all add: op0x9_def op0x9_row_def op0x9_2x2_def op0x9_strip2x1_def op0x9_strip1x2_def
        for_range_simps Let_def patternRow4Pixels_at patternRow4Pixels2x1_at patternRow4Pixels2_outside)

lemma op0xa_outside:
  assumes "outside_block (pFrame st) w a"
  shows "mem (op0xa w dat st) a = mem st a"
  using outside_block_cases [OF assms]
  by (elim disjE)
     (simp_all add: op0xa_def op0xa_quadrant_def op0xa_half_def op0xa_row_def for_range_simps Let_def
        patternRow4Pixels_at patternQuadrant4Pixels_outside)

lemma op0xb_outside:
  assumes "outside_block (pFrame st) w a"
  shows "mem (op0xb w dat st) a = mem st a"
  using outside_block_cases [OF assms]
  by (elim disjE)
     (simp_all add: op0xb_def op0xb_row_def for_range_simps Let_def copy_n_payload_outside)

lemma op0xc_outside:
  assumes "outside_block (pFrame st) w a"
  shows "mem (op0xc w dat st) a = mem st a"
  using outside_block_cases [OF assms]
  by (elim disjE)
     (simp_all add: op0xc_def op0xc_cells_def op0xc_line_def for_range_simps Let_def)

lemma op0xd_outside:
  assumes "outside_block (pFrame st) w a"
  shows "mem (op0xd w dat st) a = mem st a"
  using outside_block_cases [OF assms]
  by (elim disjE)
     (simp_all add: op0xd_def op0xd_band_def for_range_simps Let_def)

lemma op0xe_outside:
  assumes "outside_block (pFrame st) w a"
  shows "mem (op0xe w dat st) a = mem st a"
  using outside_block_cases [OF assms]
  by (elim disjE)
     (simp_all add: op0xe_def op0xe_row_def for_range_simps Let_def fill_n_outside)

lemma op0xf_outside:
  assumes "outside_block (pFrame st) w a"
  shows "mem (op0xf w dat st) a = mem st a"
  using outside_block_cases [OF assms]
  by (elim disjE)
     (simp_all add: op0xf_def op0xf_row_def for_range_simps Let_def)

lemma dispatch_outside:
  assumes "outside_block (pFrame st) w a" "dispatchDecoder b1 b2 w h dat c st = Some st'"
  shows "mem st' a = mem st a"
proof -
  have o0: "outside_block (pFrame (op0x0 b1 b2 w st)) w a"
    using assms(1) by (simp add: op_simple_proj)
  show ?thesis
    using assms(2) op0x7_outside [OF assms(1), of dat]
    by (auto simp add: dispatchDecoder_def op0x1_def op_copy_outside [OF assms(1)]
          op0x6_proj op0x8_outside [OF assms(1)] op0x9_outside [OF assms(1)]
          op0xa_outside [OF assms(1)] op0xb_outside [OF assms(1)] op0xc_outside [OF assms(1)]
          op0xd_outside [OF assms(1)] op0xe_outside [OF assms(1)] op0xf_outside [OF assms(1)]
          split: if_splits)
qed

lemma outside_buffer_outside_block:
  assumes "a < b \<or> b + H \<le> a" "b \<le> f" "f + 7 * int w + 8 \<le> b + H"
  shows "outside_block f w a"
  unfolding outside_block_def
proof (intro allI impI)
  fix r :: nat
  assume "r < 8"
  then have "int r * int w \<le> 7 * int w"
    by (intro mult_right_mono) simp_all
  moreover have "0 \<le> int r * int w" by simp
  ultimately show "a < f + int r * int w \<or> f + int r * int w + 8 \<le> a"
    using assms by linarith
qed

lemma grid_row_inside:
  assumes "grid_row b1 b2 w h dat n pMap lg st = Some (pMap', lg', st')"
    "\<forall>m \<in> set pMap. no_skip m"
    "a < b1 \<or> b1 + int (w * h) \<le> a"
    "b1 \<le> pFrame st" "pFrame st + 16 * int n + 7 * int w \<le> b1 + int (w * h)" "0 < w"
  shows "mem st' a = mem st a \<and> lg' = lg"
  using assms(1,2,4,5)
proof (induction n arbitrary: pMap lg st)
  case 0
  then show ?case by simp
next
  case (Suc n)
  show ?case
  proof (cases pMap)
    case Nil
    with Suc.prems show ?thesis by simp
  next
    case (Cons m rest)
    with Suc.prems have ns: "m AND 0xf \<noteq> 0x6" "drop_bit 4 m \<noteq> 0x6" and rest: "\<forall>m \<in> set rest. no_skip m"
      by (simp_all add: no_skip_def)
    obtain st1 where st1: "dispatchDecoder b1 b2 w h dat (m AND 0xf) st = Some st1"
      "pFrame st1 = pFrame st + 8"
      using dispatch_cursors [of b1 b2 w h dat "m AND 0xf" st] ns(1) low_nibble_le [of m] by auto
    obtain st2 where st2: "dispatchDecoder b1 b2 w h dat (drop_bit 4 m) st1 = Some st2"
      "pFrame st2 = pFrame st1 + 8"
      using dispatch_cursors [of b1 b2 w h dat "drop_bit 4 m" st1] ns(2) high_nibble_le [of m] by auto
    have o1: "outside_block (pFrame st) w a"
      using Suc.prems(3,4) by (intro outside_buffer_outside_block [OF assms(3)]) simp_all
    have o2: "outside_block (pFrame st1) w a"
      using Suc.prems(3,4) st1(2) by (intro outside_buffer_outside_block [OF assms(3)]) simp_all
    have m1: "mem st1 a = mem st a" by (rule dispatch_outside [OF o1 st1(1)])
    have m2: "mem st2 a = mem st1 a" by (rule dispatch_outside [OF o2 st2(1)])
    have quiet: "bounds_check b1 w h 2 (drop_bit 4 m) st2 (bounds_check b1 w h 1 (m AND 0xf) st1 lg) = lg"
      using Suc.prems(3,4) st1(2) st2(2) assms(6) by (simp add: bounds_check_def)
    from Suc.prems(1) Cons st1 st2 quiet
    have "grid_row b1 b2 w h dat n rest lg (st2\<lparr>curXb := curXb st2 + 1\<rparr>) = Some (pMap', lg', st')"
      by simp
    from Suc.IH [OF this rest] Suc.prems(3,4) st1(2) st2(2) m1 m2 show ?thesis by simp
  qed
qed

lemma grid_rows_inside:
  assumes "grid_rows b1 b2 w h dat (w div 16) k pMap lg st = Some (pMap', lg', st')"
    "\<forall>m \<in> set pMap. no_skip m"
    "a < b1 \<or> b1 + int (w * h) \<le> a"
    "b1 \<le> pFrame st" "pFrame st + int k * (8 * int w) \<le> b1 + int (w * h)"
  shows "mem st' a = mem st a \<and> lg' = lg"
  using assms(1,2,4,5)
proof (induction k arbitrary: pMap lg st)
  case 0
  then show ?case by simp
next
  case (Suc k)
  have "16 * (w div 16) \<le> w" by simp
  then have w16: "16 * int (w div 16) \<le> int w" by linarith
  from Suc.prems(1) obtain pMap1 lg1 st1 where
    row: "grid_row b1 b2 w h dat (w div 16) pMap lg (st\<lparr>curXb := 0\<rparr>) = Some (pMap1, lg1, st1)"
    and rows: "grid_rows b1 b2 w h dat (w div 16) k pMap1 lg1
                 (st1\<lparr>pFrame := pFrame st1 + 7 * int w, curYb := curYb st1 + 1\<rparr>) = Some (pMap', lg', st')"
    by (auto split: option.splits)
  have p1: "pMap1 = drop (w div 16) pMap" using grid_row_drop [OF row] by simp
  then have rest: "\<forall>m \<in> set pMap1. no_skip m"
    using Suc.prems(2) by (auto dest: in_set_dropD)
  have c1: "pFrame st1 = pFrame st + 16 * int (w div 16)"
    using grid_row_cursor [OF row Suc.prems(2)] by simp
  have step: "int (Suc k) * (8 * int w) = 8 * int w + int k * (8 * int w)"
    by (simp add: algebra_simps)
  have nn: "0 \<le> int k * (8 * int w)" by simp
  have room: "pFrame st + 8 * int w \<le> b1 + int (w * h)"
    using Suc.prems(4) nn step by linarith
  show ?case
  proof (cases "w = 0")
    case True
    with row have "st1 = st\<lparr>curXb := 0\<rparr>" "lg1 = lg" by simp_all
    with Suc.IH [OF rows rest] Suc.prems(3,4) True show ?thesis by simp
  next
    case False
    then have pos: "0 < w" by simp
    have r1: "mem st1 a = mem st a \<and> lg1 = lg"
      using grid_row_inside [OF row Suc.prems(2) assms(3) _ _ pos] Suc.prems(3) room w16 by simp
    have lo: "b1 \<le> pFrame (st1\<lparr>pFrame := pFrame st1 + 7 * int w, curYb := curYb st1 + 1\<rparr>)"
      using c1 Suc.prems(3) by simp
    have hi: "pFrame (st1\<lparr>pFrame := pFrame st1 + 7 * int w, curYb := curYb st1 + 1\<rparr>)
                + int k * (8 * int w) \<le> b1 + int (w * h)"
      using c1 w16 Suc.prems(4) step by simp
    have "mem st' a = mem st1 a \<and> lg' = lg1"
      using Suc.IH [OF rows rest lo hi] by simp
    with r1 show ?thesis by simp
  qed
qed

lemma decodeFrame8_returns:
  assumes "\<forall>b \<in> set pMap. no_skip b" "(w div 16) * (h div 8) \<le> length pMap"
  shows "\<exists>pMap' lg st'. decodeFrame8 b2 w h f pMap dat n m = Some (pMap', lg, st')"
proof -
  obtain res where "grid_walk b2 w h f pMap dat n m = Some res"
    unfolding grid_walk_def using grid_rows_returns [OF assms(2,1)] by blast
  then show ?thesis
    unfolding decodeFrame8_grid_walk [OF assms(1)] by (cases res) auto
qed

lemma outer_loop_no_columns:
  assumes "xb div 2 \<le> 0" "curYb st = yb - int k"
  shows "\<exists>st'. outer_loop b1 b2 w h dat xb yb pMap lg st = Some (pMap, lg, st') \<and> mem st' = mem st"
  using assms(2)
proof (induction k arbitrary: st)
  case 0
  then show ?case by (simp add: outer_loop.simps)
next
  case (Suc k)
  then have lt: "curYb st < yb" by simp
  have row: "inner_loop b1 b2 w h dat xb pMap lg (st\<lparr>curXb := 0\<rparr>) = Some (pMap, lg, st\<lparr>curXb := 0\<rparr>)"
    using assms(1) by (cases pMap) simp_all
  have "curYb (st\<lparr>curXb := 0, pFrame := pFrame st + 7 * int w, curYb := curYb st + 1\<rparr>) = yb - int k"
    using Suc.prems by simp
  from Suc.IH [OF this] row lt show ?case
    by (subst outer_loop.simps) simp
qed

lemma last_column_outside_block:
  assumes "b \<le> f" "f + 16 \<le> b + int w" "r < 8" "c < 8"
  shows "outside_block f w (b + int r * int w + int (w - 8) + int c)"
  unfolding outside_block_def
proof (intro allI impI)
  fix r' :: nat
  assume "r' < 8"
  have w8: "int (w - 8) = int w - 8" using assms(1,2) by simp
  show "b + int r * int w + int (w - 8) + int c < f + int r' * int w
        \<or> f + int r' * int w + 8 \<le> b + int r * int w + int (w - 8) + int c"
  proof (cases "r' \<le> r")
    case True
    then have "int r' * int w \<le> int r * int w" by (intro mult_right_mono) simp_all
    with assms(2) w8 show ?thesis by linarith
  next
    case False
    then have "int (Suc r) * int w \<le> int r' * int w" by (intro mult_right_mono) simp_all
    then have "int r * int w + int w \<le> int r' * int w" by (simp add: algebra_simps)
    with assms(1,4) w8 show ?thesis by linarith
  qed
qed

lemma grid_row_untouched:
  assumes "grid_row b1 b2 w h dat n pMap lg st = Some (pMap', lg', st')"
    "\<forall>m \<in> set pMap. no_skip m"
    "\<forall>t < 2 * n. outside_block (pFrame st + 8 * int t) w a"
  shows "mem st' a = mem st a"
  using assms
proof (induction n arbitrary: pMap lg st)
  case 0
  then show ?case by simp
next
  case (Suc n)
  show ?case
  proof (cases pMap)
    case Nil
    with Suc.prems show ?thesis by simp
  next
    case (Cons m rest)
    with Suc.prems have ns: "m AND 0xf \<noteq> 0x6" "drop_bit 4 m \<noteq> 0x6" and rest: "\<forall>m \<in> set rest. no_skip m"
      by (simp_all add: no_skip_def)
    obtain st1 where st1: "dispatchDecoder b1 b2 w h dat (m AND 0xf) st = Some st1"
      "pFrame st1 = pFrame st + 8"
      using dispatch_cursors [of b1 b2 w h dat "m AND 0xf" st] ns(1) low_nibble_le [of m] by auto
    obtain st2 where st2: "dispatchDecoder b1 b2 w h dat (drop_bit 4 m) st1 = Some st2"
      "pFrame st2 = pFrame st1 + 8"
      using dispatch_cursors [of b1 b2 w h dat "drop_bit 4 m" st1] ns(2) high_nibble_le [of m] by auto
    have o1: "outside_block (pFrame st) w a"
      using Suc.prems(3) [rule_format, of 0] by simp
    have o2: "outside_block (pFrame st1) w a"
      using Suc.prems(3) [rule_format, of 1] st1(2) by simp
    have m1: "mem st1 a = mem st a" by (rule dispatch_outside [OF o1 st1(1)])
    have m2: "mem st2 a = mem st1 a" by (rule dispatch_outside [OF o2 st2(1)])
    have later: "\<forall>t < 2 * n. outside_block (pFrame (st2\<lparr>curXb := curXb st2 + 1\<rparr>) + 8 * int t) w a"
    proof (intro allI impI)
      fix t assume "t < 2 * n"
      then have "t + 2 < 2 * Suc n" by simp
      from Suc.prems(3) [rule_format, OF this] st1(2) st2(2)
      show "outside_block (pFrame (st2\<lparr>curXb := curXb st2 + 1\<rparr>) + 8 * int t) w a"
        by (simp add: algebra_simps)
    qed
    from Suc.prems(1) Cons st1 st2
    have "grid_row b1 b2 w h dat n rest
            (bounds_check b1 w h 2 (drop_bit 4 m) st2 (bounds_check b1 w h 1 (m AND 0xf) st1 lg))
            (st2\<lparr>curXb := curXb st2 + 1\<rparr>) = Some (pMap', lg', st')"
      by simp
    from Suc.IH [OF this rest later] m1 m2 show ?thesis by simp
  qed
qed

lemma grid_row_last_column:
  assumes row: "grid_row b1 b2 w h dat (w div 16) pMap lg st = Some (pMap1, lg1, st1)"
    and ns: "\<forall>b \<in> set pMap. no_skip b"
    and w: "8 dvd w" "odd (w div 8)"
    and rc: "r < 8" "c < 8"
  shows "mem st1 (pFrame st + int r * int w + int (w - 8) + int c)
       = mem st (pFrame st + int r * int w + int (w - 8) + int c)"
proof -
  let ?a = "pFrame st + int r * int w + int (w - 8) + int c"
  have half: "(w div 8) div 2 = w div 16"
    by (simp add: div_mult2_eq [symmetric])
  obtain q where q: "w div 8 = 2 * q + 1" using w(2) by (elim oddE)
  have q16: "w div 16 = q" using half q by simp
  have "w = 8 * (w div 8)" using w(1) by simp
  then have w16: "int w = 16 * int (w div 16) + 8" unfolding q16 q by simp
  have "\<forall>t < 2 * (w div 16). outside_block (pFrame st + 8 * int t) w ?a"
  proof (intro allI impI)
    fix t assume "t < 2 * (w div 16)"
    then have "pFrame st + 8 * int t + 16 \<le> pFrame st + int w"
      using w16 by linarith
    then show "outside_block (pFrame st + 8 * int t) w ?a"
      using rc by (intro last_column_outside_block) simp_all
  qed
  from grid_row_untouched [OF row ns this] show ?thesis .
qed

lemma grid_row_all_0x1:
  assumes "grid_row b1 b2 w h dat n pMap lg st = Some (pMap', lg', st')" "\<forall>b \<in> set pMap. b = 0x11"
  shows "mem st' = mem st"
  using assms
proof (induction n arbitrary: pMap lg st)
  case 0
  then show ?case by simp
next
  case (Suc n)
  show ?case
  proof (cases pMap)
    case Nil
    with Suc.prems show ?thesis by simp
  next
    case (Cons b rest)
    with Suc.prems have b: "b = 0x11" and rest: "\<forall>b \<in> set rest. b = 0x11" by simp_all
    have lo: "dispatchDecoder b1 b2 w h dat (b AND 0xf) st = Some (op0x1 st)"
      and hi: "dispatchDecoder b1 b2 w h dat (drop_bit 4 b) (op0x1 st) = Some (op0x1 (op0x1 st))"
      by (simp_all add: b dispatchDecoder_def)
    from Suc.prems(1) Cons lo hi
    have "grid_row b1 b2 w h dat n rest
            (bounds_check b1 w h 2 (drop_bit 4 b) (op0x1 (op0x1 st))
               (bounds_check b1 w h 1 (b AND 0xf) (op0x1 st) lg))
            ((op0x1 (op0x1 st))\<lparr>curXb := curXb (op0x1 (op0x1 st)) + 1\<rparr>) = Some (pMap', lg', st')"
      by simp
    from Suc.IH [OF this rest] show ?thesis by (simp add: op0x1_def)
  qed
qed

lemma grid_rows_all_0x1:
  assumes "grid_rows b1 b2 w h dat n k pMap lg st = Some (pMap', lg', st')" "\<forall>b \<in> set pMap. b = 0x11"
  shows "mem st' = mem st"
  using assms
proof (induction k arbitrary: pMap lg st)
  case 0
  then show ?case by simp
next
  case (Suc k)
  from Suc.prems(1) obtain pMap1 lg1 st1 where
    row: "grid_row b1 b2 w h dat n pMap lg (st\<lparr>curXb := 0\<rparr>) = Some (pMap1, lg1, st1)"
    and rows: "grid_rows b1 b2 w h dat n k pMap1 lg1
                 (st1\<lparr>pFrame := pFrame st1 + 7 * int w, curYb := curYb st1 + 1\<rparr>) = Some (pMap', lg', st')"
    by (auto split: option.splits)
  have "pMap1 = drop n pMap" using grid_row_drop [OF row] by simp
  then have rest: "\<forall>b \<in> set pMap1. b = 0x11"
    using Suc.prems(2) by (auto dest: in_set_dropD)
  from Suc.IH [OF rows rest] grid_row_all_0x1 [OF row Suc.prems(2)] show ?case by simp
qed

subsection \<open>The dispatches of a frame\<close>

text \<open>The walk of \<open>decodeFrame8\<close> with the comparisons taken out: the same two loops,
  which return, instead of a log, the list of the dispatches made, in order. A dispatch is
  recorded with its number within the map byte (1 for the low nibble, 2 for the high
  nibble), its opcode and the decoder variables before and after it. \<open>diagnostic\<close> is
  the line that a dispatch leaves in the log: none when the cursor after it is in
  \<open>[buffer_start, buffer_start + width * height)\<close>.\<close>

type_synonym dispatched = "nat \<times> byte \<times> decoder \<times> decoder"

definition diagnostic :: "int \<Rightarrow> nat \<Rightarrow> nat \<Rightarrow> dispatched \<Rightarrow> diag list" where
  "diagnostic buffer_start width height d =
     (case d of (n, opcode, before, after) \<Rightarrow>
        if pFrame after < buffer_start
        then [Below (curXb after) (curYb after) n opcode]
        else if buffer_start + int (width * height) \<le> pFrame after
        then [Above (curXb after) (curYb after) n opcode]
        else [])"

fun dispatched_row ::
  "int \<Rightarrow> int \<Rightarrow> nat \<Rightarrow> nat \<Rightarrow> payload \<Rightarrow> int \<Rightarrow> byte list \<Rightarrow> decoder
     \<Rightarrow> (byte list \<times> dispatched list \<times> decoder) option" where
  "dispatched_row vBackBuf1 vBackBuf2 width height dat xb [] st =
     (if curXb st < xb div 2 then None else Some ([], [], st))"
| "dispatched_row vBackBuf1 vBackBuf2 width height dat xb (b # pMap) st =
     (if curXb st < xb div 2
      then (case dispatchDecoder vBackBuf1 vBackBuf2 width height dat (b AND 0xf) st of
              None \<Rightarrow> None
            | Some st1 \<Rightarrow>
               (case dispatchDecoder vBackBuf1 vBackBuf2 width height dat (drop_bit 4 b) st1 of
                  None \<Rightarrow> None
                | Some st2 \<Rightarrow>
                   (case dispatched_row vBackBuf1 vBackBuf2 width height dat xb pMap
                           (st2\<lparr>curXb := curXb st2 + 1\<rparr>) of
                      None \<Rightarrow> None
                    | Some (pMap', ds, st') \<Rightarrow>
                        Some (pMap', (1, b AND 0xf, st, st1) # (2, drop_bit 4 b, st1, st2) # ds, st'))))
      else Some (b # pMap, [], st))"

lemma inner_loop_dispatched_row:
  "inner_loop b1 b2 w h dat xb pMap lg st
   = map_option (\<lambda>(pMap', ds, st'). (pMap', lg @ concat (map (diagnostic b1 w h) ds), st'))
       (dispatched_row b1 b2 w h dat xb pMap st)"
proof (induction pMap arbitrary: lg st)
  case Nil
  show ?case by simp
next
  case (Cons b pMap)
  show ?case
  proof (cases "curXb st < xb div 2")
    case False
    then show ?thesis by simp
  next
    case True
    obtain st1 where st1: "dispatchDecoder b1 b2 w h dat (b AND 0xf) st = Some st1"
      using dispatch_total by blast
    obtain st2 where st2: "dispatchDecoder b1 b2 w h dat (drop_bit 4 b) st1 = Some st2"
      using dispatch_total by blast
    have q: "bounds_check b1 w h 2 (drop_bit 4 b) st2 (bounds_check b1 w h 1 (b AND 0xf) st1 lg)
             = lg @ diagnostic b1 w h (1, b AND 0xf, st, st1)
                  @ diagnostic b1 w h (2, drop_bit 4 b, st1, st2)"
      by (simp add: bounds_check_def diagnostic_def)
    show ?thesis
      using True st1 st2 q
      by (simp add: Cons.IH split: option.splits)
  qed
qed

lemma dispatched_row_curYb:
  assumes "dispatched_row b1 b2 w h dat xb pMap st = Some (pMap', ds, st')"
  shows "curYb st \<le> curYb st'"
proof -
  have "inner_loop b1 b2 w h dat xb pMap [] st
        = Some (pMap', concat (map (diagnostic b1 w h) ds), st')"
    unfolding inner_loop_dispatched_row using assms by simp
  then show ?thesis by (rule inner_loop_curYb)
qed

function dispatched_rows ::
  "int \<Rightarrow> int \<Rightarrow> nat \<Rightarrow> nat \<Rightarrow> payload \<Rightarrow> int \<Rightarrow> int \<Rightarrow> byte list \<Rightarrow> decoder
     \<Rightarrow> (byte list \<times> dispatched list \<times> decoder) option" where
  "dispatched_rows vBackBuf1 vBackBuf2 width height dat xb yb pMap st =
     (if curYb st < yb
      then (case dispatched_row vBackBuf1 vBackBuf2 width height dat xb pMap (st\<lparr>curXb := 0\<rparr>) of
              None \<Rightarrow> None
            | Some (pMap1, ds1, st1) \<Rightarrow>
               (case dispatched_rows vBackBuf1 vBackBuf2 width height dat xb yb pMap1
                       (st1\<lparr>pFrame := pFrame st1 + 7 * int width, curYb := curYb st1 + 1\<rparr>) of
                  None \<Rightarrow> None
                | Some (pMap', ds, st') \<Rightarrow> Some (pMap', ds1 @ ds, st')))
      else Some (pMap, [], st))"
  by pat_completeness auto
termination
proof (relation "measure (\<lambda>(b1, b2, w, h, dat, xb, yb, pMap, st). nat (yb - curYb st))", goal_cases)
  case 1
  show ?case by simp
next
  case (2 b1 b2 w h dat xb yb pMap st r pMap1 r' ds1 st1)
  then have "curYb (st\<lparr>curXb := 0\<rparr>) \<le> curYb st1"
    by (intro dispatched_row_curYb [of b1 b2 w h dat xb pMap _ pMap1 ds1]) simp
  with 2 show ?case by simp
qed

declare dispatched_rows.simps [simp del]

definition dispatched_blocks ::
  "int \<Rightarrow> nat \<Rightarrow> nat \<Rightarrow> int \<Rightarrow> byte list \<Rightarrow> payload \<Rightarrow> int \<Rightarrow> memory
     \<Rightarrow> (byte list \<times> dispatched list \<times> decoder) option" where
  "dispatched_blocks vBackBuf2 width height pFrame0 pMap dat dataRemain m =
     dispatched_rows pFrame0 vBackBuf2 width height dat
       (int (drop_bit 3 width)) (int (drop_bit 3 height)) pMap
       \<lparr>mem = m, pFrame = pFrame0, pData = 0, pDataRemain = dataRemain, curXb = 0, curYb = 0\<rparr>"

definition nibbles :: "byte list \<Rightarrow> (nat \<times> byte) list" where
  "nibbles bs = concat (map (\<lambda>b. [(1, b AND 0xf), (2, drop_bit 4 b)]) bs)"

lemma outer_loop_dispatched_rows:
  "outer_loop b1 b2 w h dat xb yb pMap lg st
   = map_option (\<lambda>(pMap', ds, st'). (pMap', lg @ concat (map (diagnostic b1 w h) ds), st'))
       (dispatched_rows b1 b2 w h dat xb yb pMap st)"
proof (induction b1 b2 w h dat xb yb pMap st arbitrary: lg rule: dispatched_rows.induct)
  case (1 b1 b2 w h dat xb yb pMap st)
  show ?case
  proof (cases "curYb st < yb")
    case False
    then show ?thesis by (simp add: outer_loop.simps dispatched_rows.simps)
  next
    case True
    show ?thesis
    proof (cases "dispatched_row b1 b2 w h dat xb pMap (st\<lparr>curXb := 0\<rparr>)")
      case None
      with True show ?thesis
        by (subst outer_loop.simps, subst dispatched_rows.simps)
           (simp add: inner_loop_dispatched_row)
    next
      case (Some r)
      obtain pMap1 ds1 st1 where r: "r = (pMap1, ds1, st1)" by (cases r)
      note IH = "1.IH" [OF True Some [unfolded r] refl refl]
      show ?thesis
        using True Some r
        by (subst outer_loop.simps, subst dispatched_rows.simps)
           (simp add: inner_loop_dispatched_row IH split: option.splits)
    qed
  qed
qed

lemma dispatched_row_events:
  assumes "dispatched_row b1 b2 w h dat xb pMap st = Some (pMap', ds, st')"
  shows "(\<exists>used. pMap = used @ pMap' \<and> map (\<lambda>(n, c, s, s'). (n, c)) ds = nibbles used)
       \<and> (\<forall>(n, c, s, s') \<in> set ds. dispatchDecoder b1 b2 w h dat c s = Some s')"
  using assms
proof (induction pMap arbitrary: st ds)
  case Nil
  then show ?case by (simp add: nibbles_def split: if_splits)
next
  case (Cons b pMap)
  show ?case
  proof (cases "curXb st < xb div 2")
    case False
    with Cons.prems show ?thesis by (simp add: nibbles_def)
  next
    case True
    obtain st1 where st1: "dispatchDecoder b1 b2 w h dat (b AND 0xf) st = Some st1"
      using dispatch_total by blast
    obtain st2 where st2: "dispatchDecoder b1 b2 w h dat (drop_bit 4 b) st1 = Some st2"
      using dispatch_total by blast
    from Cons.prems True st1 st2 obtain ds' where
      rest: "dispatched_row b1 b2 w h dat xb pMap (st2\<lparr>curXb := curXb st2 + 1\<rparr>) = Some (pMap', ds', st')"
      and ds: "ds = (1, b AND 0xf, st, st1) # (2, drop_bit 4 b, st1, st2) # ds'"
      by (auto split: option.splits)
    from Cons.IH [OF rest] obtain used where
      u: "pMap = used @ pMap'" "map (\<lambda>(n, c, s, s'). (n, c)) ds' = nibbles used"
      and d: "\<forall>(n, c, s, s') \<in> set ds'. dispatchDecoder b1 b2 w h dat c s = Some s'"
      by blast
    have "b # pMap = (b # used) @ pMap'" using u(1) by simp
    moreover have "map (\<lambda>(n, c, s, s'). (n, c)) ds = nibbles (b # used)"
      using u(2) ds by (simp add: nibbles_def)
    moreover have "\<forall>(n, c, s, s') \<in> set ds. dispatchDecoder b1 b2 w h dat c s = Some s'"
      using d ds st1 st2 by simp
    ultimately show ?thesis by blast
  qed
qed

lemma nibbles_append: "nibbles (xs @ ys) = nibbles xs @ nibbles ys"
  by (simp add: nibbles_def)

lemma dispatched_rows_events:
  assumes "dispatched_rows b1 b2 w h dat xb yb pMap st = Some (pMap', ds, st')"
  shows "(\<exists>used. pMap = used @ pMap' \<and> map (\<lambda>(n, c, s, s'). (n, c)) ds = nibbles used)
       \<and> (\<forall>(n, c, s, s') \<in> set ds. dispatchDecoder b1 b2 w h dat c s = Some s')"
  using assms
proof (induction b1 b2 w h dat xb yb pMap st arbitrary: ds rule: dispatched_rows.induct)
  case (1 b1 b2 w h dat xb yb pMap st)
  show ?case
  proof (cases "curYb st < yb")
    case False
    with "1.prems" show ?thesis by (simp add: dispatched_rows.simps nibbles_def)
  next
    case True
    from "1.prems" True obtain pMap1 ds1 st1 ds2 where
      row: "dispatched_row b1 b2 w h dat xb pMap (st\<lparr>curXb := 0\<rparr>) = Some (pMap1, ds1, st1)"
      and rows: "dispatched_rows b1 b2 w h dat xb yb pMap1
                   (st1\<lparr>pFrame := pFrame st1 + 7 * int w, curYb := curYb st1 + 1\<rparr>) = Some (pMap', ds2, st')"
      and ds: "ds = ds1 @ ds2"
      by (subst (asm) dispatched_rows.simps) (auto split: option.splits)
    from dispatched_row_events [OF row] obtain u1 where
      u1: "pMap = u1 @ pMap1" "map (\<lambda>(n, c, s, s'). (n, c)) ds1 = nibbles u1"
      and d1: "\<forall>(n, c, s, s') \<in> set ds1. dispatchDecoder b1 b2 w h dat c s = Some s'"
      by blast
    from "1.IH" [OF True row refl refl rows] obtain u2 where
      u2: "pMap1 = u2 @ pMap'" "map (\<lambda>(n, c, s, s'). (n, c)) ds2 = nibbles u2"
      and d2: "\<forall>(n, c, s, s') \<in> set ds2. dispatchDecoder b1 b2 w h dat c s = Some s'"
      by blast
    have "pMap = (u1 @ u2) @ pMap'" using u1(1) u2(1) by simp
    moreover have "map (\<lambda>(n, c, s, s'). (n, c)) ds = nibbles (u1 @ u2)"
      using u1(2) u2(2) ds by (simp add: nibbles_append)
    moreover have "\<forall>(n, c, s, s') \<in> set ds. dispatchDecoder b1 b2 w h dat c s = Some s'"
      using d1 d2 ds by auto
    ultimately show ?thesis by blast
  qed
qed

section \<open>The claims\<close>

subsection \<open>C1: payload bytes consumed by one dispatch\<close>

text \<open>C1, as stated, fails: with \<open>P0 \<le> P1\<close> opcode 0x8 takes its four-quadrant branch,
  which reads 16 payload bytes (not the 18 to 20 of the table), and leaves the
  remaining-length counter as it was.\<close>

theorem dispatch_0x8_reads_16_bytes:
  "map_option (\<lambda>st'. (pData st', pDataRemain st'))
     (dispatchDecoder 0 1000 16 8 (\<lambda>k. 0) 0x8
        \<lparr>mem = (\<lambda>a. 0), pFrame = 0, pData = 0, pDataRemain = 100, curXb = 0, curYb = 0\<rparr>)
   = Some (16, 100)"
  by (simp add: dispatchDecoder_def op0x8_proj)

text \<open>C1, amended: for every opcode, one dispatch returns and moves the read cursor by
  exactly \<open>payload_bytes\<close>: 0 bytes for 0x0, 0x1 and 0x6; 1 for 0x2, 0x3, 0x4 and 0xe;
  2 for 0x5 and 0xf; 2 + 8 or 2 + 2 for 0x7; 16 or 12 for 0x8; 20, 8, 12 or 12 for 0x9;
  32 or 24 for 0xa; 64 for 0xb; 16 for 0xc; 4 for 0xd. For the opcodes other than 0x7 to
  0xa the remaining-length counter decreases by exactly that number.\<close>

theorem dispatch_payload_consumed:
  "\<exists>st'. dispatchDecoder vBackBuf1 vBackBuf2 width height dat codeType st = Some st'
     \<and> pData st' = pData st + payload_bytes dat codeType (pData st)
     \<and> (codeType \<noteq> 0x7 \<and> codeType \<noteq> 0x8 \<and> codeType \<noteq> 0x9 \<and> codeType \<noteq> 0xa
          \<longrightarrow> pDataRemain st' = pDataRemain st - int (payload_bytes dat codeType (pData st)))"
proof -
  obtain st' where st': "dispatchDecoder vBackBuf1 vBackBuf2 width height dat codeType st = Some st'"
    "pData st' = pData st + payload_bytes dat codeType (pData st)"
    "pDataRemain st' =
       (if codeType = 0x7 \<or> codeType = 0x8 \<or> codeType = 0x9 \<or> codeType = 0xa
        then pDataRemain st
        else pDataRemain st - int (payload_bytes dat codeType (pData st)))"
    using dispatch_cursors [of vBackBuf1 vBackBuf2 width height dat codeType st] by blast
  then show ?thesis by simp
qed

theorem dispatch_payload_consumed_witness:
  "map_option (\<lambda>st'. (pData st', pDataRemain st'))
     (dispatchDecoder 0 1000 16 8 (\<lambda>k. 0) 0xb
        \<lparr>mem = (\<lambda>a. 0), pFrame = 0, pData = 0, pDataRemain = 100, curXb = 0, curYb = 0\<rparr>)
   = Some (64, 36)"
  using dispatch_payload_consumed [of 0 1000 16 8 "\<lambda>k. 0" "0xb"
      "\<lparr>mem = (\<lambda>a. 0), pFrame = 0, pData = 0, pDataRemain = 100, curXb = 0, curYb = 0\<rparr>"]
  by (auto simp add: payload_bytes_def)

subsection \<open>C2: the move of the write cursor\<close>

text \<open>C2: opcode 0x6 is to skip two 8x8 blocks. Dispatched at the start of a frame 64
  pixels wide, with the counters at 0, it moves the write cursor by 32 bytes, the width
  of four blocks, and the column counter by 2: the loop adds 16 to the cursor for every
  step of the counter.\<close>

theorem dispatch_0x6_moves_32_bytes:
  "map_option (\<lambda>st'. (pFrame st', curXb st', curYb st'))
     (dispatchDecoder 0 1000 64 8 (\<lambda>k. 0) 0x6
        \<lparr>mem = (\<lambda>a. 0), pFrame = 0, pData = 0, pDataRemain = 0, curXb = 0, curYb = 0\<rparr>)
   = Some (32, 2, 0)"
  by (simp add: dispatchDecoder_def op0x6_def op0x6_step_def Let_def drop_bit_eq_div)

subsection \<open>C5: opcode 0x7\<close>

text \<open>C5: opcode 0x7 reads two colours P0, P1. If \<open>P0 \<le> P1\<close> it reads 8 more bytes, one
  per pixel row; the pixel in column c of row r is P1 if bit c of the row's byte is set and
  P0 if it is clear, so the least significant bit is the leftmost pixel. If \<open>P0 > P1\<close> it
  reads 2 more bytes; rows 4k to 4k+3 belong to byte k, whose low nibble is the pattern of
  its upper two rows and whose high nibble that of its lower two rows, and bit j of a
  nibble selects the colour of the 2x2 cell in cell column j. (The rows of a frame at
  least 8 pixels wide do not overlap.)\<close>

theorem dispatch_0x7_two_colour_pattern:
  assumes "8 \<le> width" and "r < 8" and "c < 8"
  shows "\<exists>st'. dispatchDecoder vBackBuf1 vBackBuf2 width height dat 0x7 st = Some st'
     \<and> (let P0 = dat (pData st); P1 = dat (pData st + 1) in
         if P0 \<le> P1
         then pData st' = pData st + 2 + 8
            \<and> mem st' (pFrame st + int r * int width + int c) =
                (if bit (dat (pData st + 2 + r)) c then P1 else P0)
         else pData st' = pData st + 2 + 2
            \<and> mem st' (pFrame st + int r * int width + int c) =
                (let b = dat (pData st + 2 + r div 4);
                     pat = (if (r div 2) mod 2 = 0 then b AND 0xf else drop_bit 4 b)
                 in if bit pat (c div 2) then P1 else P0))"
proof (cases "dat (pData st) \<le> dat (pData st + 1)")
  case True
  obtain st' where st': "op0x7 width dat st = Some st'"
    "mem st' (pFrame st + int r * int width + int c) =
       (if bit (dat (pData st + 2 + r)) c then dat (pData st + 1) else dat (pData st))"
    using op0x7_rows_mem [OF assms True] by blast
  moreover have "pData st' = pData st + 10"
    using op0x7_proj [of width dat st] st'(1) True by auto
  ultimately show ?thesis
    using True by (simp add: dispatchDecoder_def Let_def)
next
  case False
  obtain st' where st': "op0x7 width dat st = Some st'"
    "mem st' (pFrame st + int r * int width + int c) =
       (let b = dat (pData st + 2 + r div 4);
            pat = (if (r div 2) mod 2 = 0 then b AND 0xf else drop_bit 4 b)
        in if bit pat (c div 2) then dat (pData st + 1) else dat (pData st))"
    using op0x7_cells_mem [OF assms False] by blast
  moreover have "pData st' = pData st + 4"
    using op0x7_proj [of width dat st] st'(1) False by auto
  ultimately show ?thesis
    using False by (simp add: dispatchDecoder_def Let_def)
qed

text \<open>The first example of the source's comment: colours 11 22 and the rows fe 83 ... fe
  (hexadecimal); row 1 is 83, whose bit 2 is clear, so the pixel is 11.\<close>

theorem dispatch_0x7_two_colour_pattern_witness:
  "(8::nat) \<le> 16 \<and> (1::nat) < 8 \<and> (2::nat) < 8 \<and>
   (\<exists>st'. dispatchDecoder 0 1000 16 8
            (\<lambda>k. [0x11, 0x22, 0xfe, 0x83, 0x83, 0x83, 0x83, 0x83, 0x83, 0xfe] ! k) 0x7
            \<lparr>mem = (\<lambda>a. 0), pFrame = 0, pData = 0, pDataRemain = 10, curXb = 0, curYb = 0\<rparr>
          = Some st' \<and> pData st' = 10 \<and> mem st' 18 = 0x11)"
  using dispatch_0x7_two_colour_pattern [of 16 1 2 0 1000 8
      "\<lambda>k. [0x11, 0x22, 0xfe, 0x83, 0x83, 0x83, 0x83, 0x83, 0x83, 0xfe] ! k"
      "\<lparr>mem = (\<lambda>a. 0), pFrame = 0, pData = 0, pDataRemain = 10, curXb = 0, curYb = 0\<rparr>"]
  by (simp add: Let_def)

subsection \<open>C7: opcode 0x2\<close>

text \<open>C7: opcode 0x2 reads one payload byte B and copies an 8x8 block from the current
  buffer: with \<open>x = 8 + B mod 7\<close>, \<open>y = B div 7\<close> if \<open>B < 56\<close>, and
  \<open>x = -14 + (B - 56) mod 29\<close>, \<open>y = 8 + (B - 56) div 29\<close> otherwise, the pixel in row r
  and column c of the block becomes what the memory held, before the dispatch, at
  \<open>pFrame + x + y * width\<close> plus the same row and column. For \<open>B = 10\<close> the source
  starts at \<open>pFrame + 11 + 1 * width\<close>.\<close>

theorem dispatch_0x2_copies_far_block:
  assumes "8 \<le> width" and "r < 8" and "c < 8"
  shows "\<exists>st'. dispatchDecoder vBackBuf1 vBackBuf2 width height dat 0x2 st = Some st'
     \<and> pData st' = pData st + 1
     \<and> (let B = uint (dat (pData st));
             x = (if B < 56 then 8 + B mod 7 else -14 + (B - 56) mod 29);
             y = (if B < 56 then B div 7 else 8 + (B - 56) div 29)
         in mem st' (pFrame st + int r * int width + int c) =
            mem st (pFrame st + x + y * int width + int r * int width + int c))
     \<and> (dat (pData st) = 10 \<longrightarrow>
           mem st' (pFrame st + int r * int width + int c) =
           mem st ((pFrame st + 11 + 1 * int width) + int r * int width + int c))"
proof -
  let ?B = "uint (dat (pData st))"
  let ?x = "if ?B < 56 then 8 + ?B mod 7 else -14 + (?B - 56) mod 29"
  let ?y = "if ?B < 56 then ?B div 7 else 8 + (?B - 56) div 29"
  have far: "relFar ?B 1 = (?x, ?y)"
    by (simp add: relFar_positive)
  have copied: "mem (op_relFar 1 width dat st) (pFrame st + int r * int width + int c) =
      mem st (pFrame st + ?x + ?y * int width + int r * int width + int c)"
    by (rule op_relFar_positive_mem [where dat = dat and st = st, OF assms far])
  have ten: "dat (pData st) = 10 \<Longrightarrow> ?x = 11 \<and> ?y = 1"
    by simp
  show ?thesis
    using copied ten
    by (auto simp add: dispatchDecoder_def op_simple_proj Let_def)
qed

text \<open>The offset byte 10 in a frame 16 pixels wide: the block's first pixel is copied from
  address 11 + 16 = 27.\<close>

theorem dispatch_0x2_copies_far_block_witness:
  "(8::nat) \<le> 16 \<and> (0::nat) < 8 \<and>
   (\<exists>st'. dispatchDecoder 0 1000 16 8 (\<lambda>k. 10) 0x2
            \<lparr>mem = (\<lambda>a. if a = 27 then 7 else 0), pFrame = 0, pData = 0, pDataRemain = 1,
             curXb = 0, curYb = 0\<rparr> = Some st'
          \<and> pData st' = 1 \<and> mem st' 0 = 7)"
  using dispatch_0x2_copies_far_block [of 16 0 0 0 1000 8 "\<lambda>k. 10"
      "\<lparr>mem = (\<lambda>a. if a = 27 then 7 else 0), pFrame = 0, pData = 0, pDataRemain = 1,
        curXb = 0, curYb = 0\<rparr>"]
  by (simp add: Let_def)

subsection \<open>C4: opcode 0x9\<close>

text \<open>C4, as stated, fails on the totals: the branch \<open>P0 \<le> P1\<close>, \<open>P2 > P3\<close> (2x2 units)
  reads 4 + 4 = 8 bytes, not 12, and the branch \<open>P0 > P1\<close>, \<open>P2 > P3\<close> (1x2 units) reads
  4 + 8 = 12 bytes, not 20.\<close>

theorem dispatch_0x9_branch_totals:
  "map_option pData
     (dispatchDecoder 0 1000 16 8 (\<lambda>k. if k = 2 then 1 else 0) 0x9
        \<lparr>mem = (\<lambda>a. 0), pFrame = 0, pData = 0, pDataRemain = 100, curXb = 0, curYb = 0\<rparr>)
   = Some 8
   \<and> map_option pData
     (dispatchDecoder 0 1000 16 8 (\<lambda>k. if k = 0 \<or> k = 2 then 1 else 0) 0x9
        \<lparr>mem = (\<lambda>a. 0), pFrame = 0, pData = 0, pDataRemain = 100, curXb = 0, curYb = 0\<rparr>)
   = Some 12"
  by (simp add: dispatchDecoder_def op0x9_proj)

text \<open>C4, amended: opcode 0x9 reads four colours P0..P3 and then, by the comparisons of
  (P0, P1) and of (P2, P3):
  \<^item> \<open>P0 \<le> P1\<close>, \<open>P2 \<le> P3\<close>: 16 pattern bytes, two per pixel row, one two-bit unit per
    pixel; 20 bytes in all;
  \<^item> \<open>P0 \<le> P1\<close>, \<open>P2 > P3\<close>: 4 pattern bytes, one per pair of rows, one unit per 2x2
    cell; 8 bytes in all;
  \<^item> \<open>P0 > P1\<close>, \<open>P2 \<le> P3\<close>: 8 pattern bytes, one per pixel row, one unit per 2x1 cell
    (two pixels wide, one high); 12 bytes in all;
  \<^item> \<open>P0 > P1\<close>, \<open>P2 > P3\<close>: 8 pattern bytes, two per pair of rows, one unit per 1x2
    cell (one pixel wide, two high); 12 bytes in all.
  The pixel in row r and column c takes the colour its unit's two bits select.\<close>

theorem dispatch_0x9_four_colour_pattern:
  assumes "8 \<le> width" and "r < 8" and "c < 8"
  shows "\<exists>st'. dispatchDecoder vBackBuf1 vBackBuf2 width height dat 0x9 st = Some st'
     \<and> (let d = pData st;
             P = [dat d, dat (d + 1), dat (d + 2), dat (d + 3)];
             px = mem st' (pFrame st + int r * int width + int c)
         in if dat d \<le> dat (d + 1)
            then (if dat (d + 2) \<le> dat (d + 3)
                  then pData st' = d + 4 + 16
                     \<and> px = P ! colour_index (pattern16 (dat (d + 4 + 2 * r))
                                                         (dat (d + 4 + 2 * r + 1))) c
                  else pData st' = d + 4 + 4
                     \<and> px = P ! colour_index (dat (d + 4 + r div 2)) (c div 2))
            else (if dat (d + 2) \<le> dat (d + 3)
                  then pData st' = d + 4 + 8
                     \<and> px = P ! colour_index (dat (d + 4 + r)) (c div 2)
                  else pData st' = d + 4 + 8
                     \<and> px = P ! colour_index (pattern16 (dat (d + 4 + 2 * (r div 2)))
                                                         (dat (d + 4 + 2 * (r div 2) + 1))) c))"
  using op0x9_1x1_mem [OF assms, of dat st] op0x9_2x2_mem [OF assms, of dat st]
    op0x9_2x1_mem [OF assms, of dat st] op0x9_1x2_mem [OF assms, of dat st]
  by (simp add: dispatchDecoder_def op0x9_proj Let_def)

text \<open>Colours 1 2 3 2 (so \<open>P0 \<le> P1\<close>, \<open>P2 > P3\<close>) and the pattern bytes e4 1b 00 ff: the
  pixel in row 2, column 2 lies in the cell of row pair 1, cell column 1, whose two bits in
  1b are 10, the colour P2 = 3.\<close>

theorem dispatch_0x9_four_colour_pattern_witness:
  "(8::nat) \<le> 16 \<and> (2::nat) < 8 \<and>
   (\<exists>st'. dispatchDecoder 0 1000 16 8 (\<lambda>k. [1, 2, 3, 2, 0xe4, 0x1b, 0x00, 0xff] ! k) 0x9
            \<lparr>mem = (\<lambda>a. 0), pFrame = 0, pData = 0, pDataRemain = 8, curXb = 0, curYb = 0\<rparr>
          = Some st' \<and> pData st' = 8 \<and> mem st' 34 = 3)"
  using dispatch_0x9_four_colour_pattern [of 16 2 2 0 1000 8
      "\<lambda>k. [1, 2, 3, 2, 0xe4, 0x1b, 0x00, 0xff] ! k"
      "\<lparr>mem = (\<lambda>a. 0), pFrame = 0, pData = 0, pDataRemain = 8, curXb = 0, curYb = 0\<rparr>"]
  by (simp add: Let_def colour_index_def)

subsection \<open>C6: the walk of the block grid\<close>

text \<open>C6, as stated, fails on two kinds of frames. In a frame 16 wide and 16 high whose
  first opcode is 0x6, the dispatcher itself moves the row counter: \<open>decodeFrame8\<close> walks
  one block-row, reads one of the two map bytes and ends with the row counter at 2. In a
  frame 24 wide the jump of 7 * width after the row's two blocks ends at 16 + 168 = 184,
  which is not the start of a band (192).\<close>

theorem decodeFrame8_skip_or_odd_columns:
  "map_option (\<lambda>(pMap', lg, st). (pMap', curYb st))
     (decodeFrame8 1000 16 16 0 [0x16, 0x11] (\<lambda>k. 0) 0 (\<lambda>a. 0)) = Some ([0x11], 2)
   \<and> map_option (\<lambda>(pMap', lg, st). pFrame st)
     (decodeFrame8 1000 24 8 0 [0x11] (\<lambda>k. 0) 0 (\<lambda>a. 0)) = Some 184"
  by (simp add: decode_eval)

text \<open>C6, amended: for an opcode map in which no nibble is 0x6, \<open>decodeFrame8\<close> is the
  counted walk \<open>grid_walk\<close>: height/8 block-rows, each reading the next width/16 map bytes
  in order and dispatching a byte's low nibble, then its high nibble, and then moving the
  cursor on by 7 * width. When the width is a multiple of 16, the walk of the first k
  block-rows ends with the cursor at the start of band k, \<open>pFrame0 + k * 8 * width\<close>, and
  has read \<open>k * (width/16)\<close> map bytes. The decoding returns when the map has its
  \<open>(width/16) * (height/8)\<close> bytes.\<close>

theorem decodeFrame8_walks_grid:
  assumes "\<forall>b \<in> set pMap. b AND 0xf \<noteq> 0x6 \<and> drop_bit 4 b \<noteq> 0x6"
  shows "decodeFrame8 vBackBuf2 width height pFrame0 pMap dat dataRemain m
           = grid_walk vBackBuf2 width height pFrame0 pMap dat dataRemain m
     \<and> ((width div 16) * (height div 8) \<le> length pMap \<longrightarrow>
          (\<exists>res. decodeFrame8 vBackBuf2 width height pFrame0 pMap dat dataRemain m = Some res))
     \<and> (16 dvd width \<longrightarrow>
          (\<forall>k pMap' lg' st'.
             grid_rows pFrame0 vBackBuf2 width height dat (width div 16) k pMap []
               \<lparr>mem = m, pFrame = pFrame0, pData = 0, pDataRemain = dataRemain,
                curXb = 0, curYb = 0\<rparr> = Some (pMap', lg', st')
             \<longrightarrow> pFrame st' = pFrame0 + int k * (8 * int width)
               \<and> pMap' = drop (k * (width div 16)) pMap))"
proof -
  have ns: "\<forall>b \<in> set pMap. no_skip b"
    using assms by (simp add: no_skip_def)
  have band: "int k * (16 * int (width div 16) + 7 * int width) = int k * (8 * int width)"
    if w16: "16 dvd width" for k
  proof -
    obtain q where q: "width = 16 * q" using w16 by (elim dvdE)
    show ?thesis unfolding q by simp
  qed
  have rows: "pFrame st' = pFrame0 + int k * (8 * int width) \<and> pMap' = drop (k * (width div 16)) pMap"
    if "16 dvd width"
      and "grid_rows pFrame0 vBackBuf2 width height dat (width div 16) k pMap []
             \<lparr>mem = m, pFrame = pFrame0, pData = 0, pDataRemain = dataRemain,
              curXb = 0, curYb = 0\<rparr> = Some (pMap', lg', st')"
    for k pMap' lg' st'
    using grid_rows_cursor [OF that(2) ns] band [OF that(1), of k]
    by (simp add: mult.commute)
  have ret: "\<exists>res. decodeFrame8 vBackBuf2 width height pFrame0 pMap dat dataRemain m = Some res"
    if "(width div 16) * (height div 8) \<le> length pMap"
    using decodeFrame8_returns [OF ns that] by blast
  show ?thesis
    using decodeFrame8_grid_walk [OF ns] rows ret by blast
qed

theorem decodeFrame8_walks_grid_witness:
  "(0xe1 :: byte) AND 0xf \<noteq> 0x6 \<and> drop_bit 4 (0xe1 :: byte) \<noteq> 0x6
   \<and> decodeFrame8 1000 16 8 0 [0xe1] (\<lambda>k. 5) 1 (\<lambda>a. 0)
     = grid_walk 1000 16 8 0 [0xe1] (\<lambda>k. 5) 1 (\<lambda>a. 0)
   \<and> (\<exists>res. decodeFrame8 1000 16 8 0 [0xe1] (\<lambda>k. 5) 1 (\<lambda>a. 0) = Some res)"
proof -
  have h: "\<forall>b \<in> set [0xe1 :: byte]. b AND 0xf \<noteq> 0x6 \<and> drop_bit 4 b \<noteq> 0x6"
    by simp
  have l: "(16 div 16) * (8 div 8) \<le> length [0xe1 :: byte]"
    by simp
  from decodeFrame8_walks_grid [OF h, of 1000 16 8 0 "\<lambda>k. 5" 1 "\<lambda>a. 0"] l
  have "decodeFrame8 1000 16 8 0 [0xe1] (\<lambda>k. 5) 1 (\<lambda>a. 0)
          = grid_walk 1000 16 8 0 [0xe1] (\<lambda>k. 5) 1 (\<lambda>a. 0)"
    and "\<exists>res. decodeFrame8 1000 16 8 0 [0xe1] (\<lambda>k. 5) 1 (\<lambda>a. 0) = Some res"
    by blast+
  with h show ?thesis by (intro conjI) simp_all
qed

subsection \<open>C8: a map of 0x1 opcodes\<close>

text \<open>C8, as stated, fails: opcode 0x1 writes nothing, so the destination keeps what it
  held on entry, whatever the buffer of two frames ago holds. Here the destination (at
  address 0) holds zeros and the historical buffer (at address 1000) holds ones.\<close>

theorem decodeFrame8_all_0x1_differs_from_history:
  "map_option (\<lambda>(pMap', lg, st). (mem st 0, mem st 1000))
     (decodeFrame8 1000 16 8 0 [0x11] (\<lambda>k. 0) 0 (\<lambda>a. if 1000 \<le> a then 1 else 0))
   = Some (0, 1)"
  by (simp add: decode_eval)

text \<open>C8, amended: for every frame whose opcode map consists entirely of 0x1 nibbles,
  decoding leaves the memory, and so the destination buffer, bitwise identical to what it
  was on entry (it equals the historical buffer only if it did on entry); and the decoding
  returns when the map has its \<open>(width/16) * (height/8)\<close> bytes.\<close>

theorem decodeFrame8_all_0x1_keeps_buffer:
  assumes "\<forall>b \<in> set pMap. b = 0x11"
  shows "(\<forall>pMap' lg st'.
            decodeFrame8 vBackBuf2 width height pFrame0 pMap dat dataRemain m = Some (pMap', lg, st')
            \<longrightarrow> mem st' = m)
     \<and> ((width div 16) * (height div 8) \<le> length pMap \<longrightarrow>
          (\<exists>res. decodeFrame8 vBackBuf2 width height pFrame0 pMap dat dataRemain m = Some res))"
proof -
  have ns: "\<forall>b \<in> set pMap. no_skip b"
    using assms by (auto simp add: no_skip_def)
  show ?thesis
    unfolding decodeFrame8_grid_walk [OF ns] grid_walk_def
    using grid_rows_all_0x1 [OF _ assms] grid_rows_returns [OF _ ns]
    by fastforce
qed

theorem decodeFrame8_all_0x1_keeps_buffer_witness:
  "map_option (\<lambda>(pMap', lg, st). mem st)
     (decodeFrame8 1000 16 8 0 [0x11] (\<lambda>k. 0) 0 (\<lambda>a. if 1000 \<le> a then 1 else 0))
   = Some (\<lambda>a. if 1000 \<le> a then 1 else 0)"
  using decodeFrame8_all_0x1_keeps_buffer [of "[0x11]" 1000 16 8 0 "\<lambda>k. 0" 0
      "\<lambda>a. if 1000 \<le> a then 1 else 0"]
  by auto

subsection \<open>C9: the check after each dispatch\<close>

text \<open>C9: the log that \<open>decodeFrame8\<close> returns holds, in the order of the dispatches,
  one critical line for each dispatch that leaves the cursor outside
  \<open>[vBackBuf1, vBackBuf1 + width * height)\<close>, with the loop counters i and j, the number
  of the dispatch and the opcode, and nothing else; the rest of the map and the decoder
  variables it returns are those of the walk without the comparisons, so a line in the
  log changes nothing of what follows. The dispatches of that walk are those of the
  nibbles of the map bytes read, low nibble first, each made in the decoder variables the
  walk has reached.\<close>

theorem decodeFrame8_checks_every_dispatch:
  "decodeFrame8 vBackBuf2 width height pFrame0 pMap dat dataRemain m
   = map_option (\<lambda>(pMap', ds, st'). (pMap', concat (map (diagnostic pFrame0 width height) ds), st'))
       (dispatched_blocks vBackBuf2 width height pFrame0 pMap dat dataRemain m)
   \<and> (\<forall>pMap' ds st'.
        dispatched_blocks vBackBuf2 width height pFrame0 pMap dat dataRemain m = Some (pMap', ds, st')
        \<longrightarrow> (\<exists>used. pMap = used @ pMap' \<and> map (\<lambda>(n, c, s, s'). (n, c)) ds = nibbles used)
          \<and> (\<forall>(n, c, s, s') \<in> set ds.
                dispatchDecoder pFrame0 vBackBuf2 width height dat c s = Some s'))"
proof (intro conjI allI impI)
  show "decodeFrame8 vBackBuf2 width height pFrame0 pMap dat dataRemain m
   = map_option (\<lambda>(pMap', ds, st'). (pMap', concat (map (diagnostic pFrame0 width height) ds), st'))
       (dispatched_blocks vBackBuf2 width height pFrame0 pMap dat dataRemain m)"
    unfolding decodeFrame8_def dispatched_blocks_def Let_def
    by (simp add: outer_loop_dispatched_rows)
next
  fix pMap' ds st'
  assume "dispatched_blocks vBackBuf2 width height pFrame0 pMap dat dataRemain m = Some (pMap', ds, st')"
  then have r: "dispatched_rows pFrame0 vBackBuf2 width height dat
       (int (drop_bit 3 width)) (int (drop_bit 3 height)) pMap
       \<lparr>mem = m, pFrame = pFrame0, pData = 0, pDataRemain = dataRemain, curXb = 0, curYb = 0\<rparr>
       = Some (pMap', ds, st')"
    by (simp add: dispatched_blocks_def)
  from dispatched_rows_events [OF r]
  show "\<exists>used. pMap = used @ pMap' \<and> map (\<lambda>(n, c, s, s'). (n, c)) ds = nibbles used"
    and "\<forall>(n, c, s, s') \<in> set ds. dispatchDecoder pFrame0 vBackBuf2 width height dat c s = Some s'"
    by blast+
qed

text \<open>The map byte e6 in a frame 16 wide and 8 high: opcode 0x6 leaves the cursor at 144,
  past the 128 bytes of the frame, which is logged; opcode 0xe is dispatched all the same,
  leaves the cursor at 152 and is logged in its turn.\<close>

theorem decodeFrame8_checks_every_dispatch_witness:
  "map_option (\<lambda>(pMap', ds, st'). map (\<lambda>(n, c, s, s'). (n, c, pFrame s')) ds)
     (dispatched_blocks 1000 16 8 0 [0xe6] (\<lambda>k. 5) 1 (\<lambda>a. 0))
   = Some [(1, 0x6, 144), (2, 0xe, 152)]
   \<and> map_option (\<lambda>(pMap', lg, st'). (pMap', lg))
       (decodeFrame8 1000 16 8 0 [0xe6] (\<lambda>k. 5) 1 (\<lambda>a. 0))
     = Some ([], [Above 0 1 1 0x6, Above 0 1 2 0xe])"
proof -
  have ev: "map_option (\<lambda>(pMap', ds, st'). (pMap', map (\<lambda>(n, c, s, s'). (n, c, pFrame s', curXb s', curYb s')) ds))
     (dispatched_blocks 1000 16 8 0 [0xe6] (\<lambda>k. 5) 1 (\<lambda>a. 0))
   = Some ([], [(1, 0x6, 144, 0, 1), (2, 0xe, 152, 0, 1)])"
    by (simp add: dispatched_blocks_def dispatched_rows.simps dispatchDecoder_def op0x6_def
          op0x6_step_def Let_def drop_bit_eq_div op0xe_proj)
  then obtain ds st' where
    r: "dispatched_blocks 1000 16 8 0 [0xe6] (\<lambda>k. 5) 1 (\<lambda>a. 0) = Some ([], ds, st')"
    and ds: "map (\<lambda>(n, c, s, s'). (n, c, pFrame s', curXb s', curYb s')) ds
             = [(1, 0x6, 144, 0, 1), (2, 0xe, 152, 0, 1)]"
    by auto
  from ds have lg: "concat (map (diagnostic 0 16 8) ds) = [Above 0 1 1 0x6, Above 0 1 2 0xe]"
    by (auto simp add: diagnostic_def)
  from ds have one: "map (\<lambda>(n, c, s, s'). (n, c, pFrame s')) ds = [(1, 0x6, 144), (2, 0xe, 152)]"
    by auto
  from decodeFrame8_checks_every_dispatch [of 1000 16 8 0 "[0xe6]" "\<lambda>k. 5" 1 "\<lambda>a. 0"]
  have "decodeFrame8 1000 16 8 0 [0xe6] (\<lambda>k. 5) 1 (\<lambda>a. 0)
   = map_option (\<lambda>(pMap', ds, st'). (pMap', concat (map (diagnostic 0 16 8) ds), st'))
       (dispatched_blocks 1000 16 8 0 [0xe6] (\<lambda>k. 5) 1 (\<lambda>a. 0))"
    by blast
  with r lg one show ?thesis by simp
qed

subsection \<open>C3: writes outside the destination\<close>

text \<open>C3, as stated, fails: the comparison with the bounds comes after the dispatch and
  guards nothing. In a frame 16 wide and 8 high (128 bytes) with the map byte e6, opcode
  0x6 leaves the cursor at 144; this is logged, and opcode 0xe is then dispatched at that
  cursor and fills a block beyond the frame: the byte at offset 144 becomes 5.\<close>

theorem decodeFrame8_writes_past_the_frame:
  "map_option (\<lambda>(pMap', lg, st). (lg, mem st 144))
     (decodeFrame8 1000 16 8 0 [0xe6] (\<lambda>k. 5) 1 (\<lambda>a. 0))
   = Some ([Above 0 1 1 0x6, Above 0 1 2 0xe], 5)"
  by (simp add: decode_eval op0xe_def op0xe_row_def fill_n_def for_range_simps)

text \<open>C3, amended: for every width and height, when no opcode of the map is 0x6, every
  block that \<open>decodeFrame8\<close> writes lies in the destination: no byte outside the
  width * height region is changed, and nothing is logged; and the decoding returns when
  the map has its \<open>(width/16) * (height/8)\<close> bytes.\<close>

theorem decodeFrame8_writes_inside_frame:
  assumes "\<forall>b \<in> set pMap. b AND 0xf \<noteq> 0x6 \<and> drop_bit 4 b \<noteq> 0x6"
    and "a < pFrame0 \<or> pFrame0 + int (width * height) \<le> a"
  shows "(\<forall>pMap' lg st'.
            decodeFrame8 vBackBuf2 width height pFrame0 pMap dat dataRemain m = Some (pMap', lg, st')
            \<longrightarrow> mem st' a = m a \<and> lg = [])
     \<and> ((width div 16) * (height div 8) \<le> length pMap \<longrightarrow>
          (\<exists>res. decodeFrame8 vBackBuf2 width height pFrame0 pMap dat dataRemain m = Some res))"
proof (intro conjI allI impI)
  have ns: "\<forall>b \<in> set pMap. no_skip b"
    using assms(1) by (simp add: no_skip_def)
  {
    assume "(width div 16) * (height div 8) \<le> length pMap"
    from decodeFrame8_returns [OF ns this]
    show "\<exists>res. decodeFrame8 vBackBuf2 width height pFrame0 pMap dat dataRemain m = Some res"
      by blast
  }
  fix pMap' lg st'
  assume r: "decodeFrame8 vBackBuf2 width height pFrame0 pMap dat dataRemain m = Some (pMap', lg, st')"
  have "8 * (height div 8) \<le> height" by simp
  then have "width * (8 * (height div 8)) \<le> width * height"
    by (rule mult_le_mono2)
  then have "int (width * (8 * (height div 8))) \<le> int (width * height)"
    by (simp only: of_nat_le_iff)
  moreover have "int (width * (8 * (height div 8))) = int (height div 8) * (8 * int width)"
    by simp
  ultimately have room: "pFrame0 + int (height div 8) * (8 * int width) \<le> pFrame0 + int (width * height)"
    by linarith
  have "grid_rows pFrame0 vBackBuf2 width height dat (width div 16) (height div 8) pMap []
          \<lparr>mem = m, pFrame = pFrame0, pData = 0, pDataRemain = dataRemain, curXb = 0, curYb = 0\<rparr>
        = Some (pMap', lg, st')"
    using r unfolding decodeFrame8_grid_walk [OF ns] grid_walk_def .
  from grid_rows_inside [OF this ns assms(2)] room
  have both: "mem st' a = m a \<and> lg = []" by simp
  from both show "mem st' a = m a" ..
  from both show "lg = []" ..
qed

text \<open>The frame 24 wide and 10 high with the map byte ee: the byte just past the frame,
  at offset 240, is as before, and the log is empty.\<close>

theorem decodeFrame8_writes_inside_frame_witness:
  "(0xee :: byte) AND 0xf \<noteq> 0x6 \<and> drop_bit 4 (0xee :: byte) \<noteq> 0x6
   \<and> map_option (\<lambda>(pMap', lg, st). (lg, mem st 240))
       (decodeFrame8 1000 24 10 0 [0xee] (\<lambda>k. 5) 2 (\<lambda>a. 0)) = Some ([], 0)"
proof -
  from decodeFrame8_writes_inside_frame [where width = 24 and height = 10 and pMap = "[0xee]"
      and a = 240 and ?pFrame0.0 = 0 and ?vBackBuf2.0 = 1000 and dat = "\<lambda>k. 5"
      and dataRemain = 2 and m = "\<lambda>a. 0"]
  have t: "(\<forall>pMap' lg st'.
            decodeFrame8 1000 24 10 0 [0xee] (\<lambda>k. 5) 2 (\<lambda>a. 0) = Some (pMap', lg, st')
            \<longrightarrow> mem st' 240 = 0 \<and> lg = [])"
    and e: "\<exists>res. decodeFrame8 1000 24 10 0 [0xee] (\<lambda>k. 5) 2 (\<lambda>a. 0) = Some res"
    by simp_all
  from e obtain pMap' lg st' where
    r: "decodeFrame8 1000 24 10 0 [0xee] (\<lambda>k. 5) 2 (\<lambda>a. 0) = Some (pMap', lg, st')"
    by (metis prod_cases3)
  from t r show ?thesis by simp
qed

subsection \<open>C10: an odd number of block columns\<close>

text \<open>C10, as stated, fails: in a frame 24 wide the jump after a block-row ends 8 bytes
  before the next band, so the second block-row's first block starts in row 7 at column
  16, the last block column. With the map ee ee and the payload 5 5 5 5 the byte at row
  7, column 16 of a frame 24 wide and 16 high becomes 5.\<close>

theorem decodeFrame8_last_column_overwritten:
  "map_option (\<lambda>(pMap', lg, st). mem st (7 * 24 + 16))
     (decodeFrame8 1000 24 16 0 [0xee, 0xee] (\<lambda>k. 5) 4 (\<lambda>a. 0)) = Some 5"
  by (simp add: decode_eval op0xe_def op0xe_row_def fill_n_def for_range_simps)

text \<open>C10, amended: for width 8 the inner loop never runs: \<open>decodeFrame8\<close> returns with
  the memory, the map and the log as they were, whatever the height, the map and the
  payload. For a map without opcode 0x6, \<open>decodeFrame8\<close> returns when the map has
  \<open>((width/8)/2) * (height/8)\<close> bytes, and reads \<open>(width/8)/2\<close> map bytes per
  block-row, rounded down; so when width/8 is odd the last block column of the first
  block-row is not dispatched, and in a frame one block-row high its bytes are left as
  they were on entry. (In a higher frame the following block-rows start 8 bytes before
  their band and do write into the last block column.)\<close>

theorem decodeFrame8_odd_block_columns:
  "(\<exists>st'. decodeFrame8 vBackBuf2 8 height pFrame0 pMap dat dataRemain m = Some (pMap, [], st')
          \<and> mem st' = m)
   \<and> ((\<forall>b \<in> set pMap. b AND 0xf \<noteq> 0x6 \<and> drop_bit 4 b \<noteq> 0x6) \<longrightarrow>
        ((width div 8) div 2 * (height div 8) \<le> length pMap \<longrightarrow>
           (\<exists>res. decodeFrame8 vBackBuf2 width height pFrame0 pMap dat dataRemain m = Some res))
      \<and> (\<forall>pMap' lg st'.
           decodeFrame8 vBackBuf2 width height pFrame0 pMap dat dataRemain m = Some (pMap', lg, st')
           \<longrightarrow> pMap' = drop ((width div 8) div 2 * (height div 8)) pMap
             \<and> (8 dvd width \<and> odd (width div 8) \<and> height div 8 = 1 \<longrightarrow>
                  (\<forall>r<8. \<forall>c<8.
                     mem st' (pFrame0 + int r * int width + int (width - 8) + int c)
                     = m (pFrame0 + int r * int width + int (width - 8) + int c)))))"
proof (intro conjI impI allI)
  let ?st = "\<lparr>mem = m, pFrame = pFrame0, pData = 0, pDataRemain = dataRemain, curXb = 0, curYb = 0\<rparr>"
  have z: "int (drop_bit 3 (8::nat)) div 2 \<le> 0"
    by (simp add: drop_bit_eq_div)
  have c: "curYb ?st = int (drop_bit 3 height) - int (drop_bit 3 height)"
    by simp
  from outer_loop_no_columns [OF z c, where ?b1.0 = pFrame0 and ?b2.0 = vBackBuf2 and w = 8
      and h = height and dat = dat and pMap = pMap and lg = "[]"]
  show "\<exists>st'. decodeFrame8 vBackBuf2 8 height pFrame0 pMap dat dataRemain m = Some (pMap, [], st')
          \<and> mem st' = m"
    by (simp add: decodeFrame8_def Let_def)
next
  assume "\<forall>b \<in> set pMap. b AND 0xf \<noteq> 0x6 \<and> drop_bit 4 b \<noteq> 0x6"
  then have ns: "\<forall>b \<in> set pMap. no_skip b"
    by (simp add: no_skip_def)
  have half: "(width div 8) div 2 = width div 16"
    by (simp add: div_mult2_eq [symmetric])
  assume "(width div 8) div 2 * (height div 8) \<le> length pMap"
  then have "(width div 16) * (height div 8) \<le> length pMap"
    unfolding half .
  from decodeFrame8_returns [OF ns this]
  show "\<exists>res. decodeFrame8 vBackBuf2 width height pFrame0 pMap dat dataRemain m = Some res"
    by blast
next
  fix pMap' lg st'
  assume "\<forall>b \<in> set pMap. b AND 0xf \<noteq> 0x6 \<and> drop_bit 4 b \<noteq> 0x6"
  then have ns: "\<forall>b \<in> set pMap. no_skip b"
    by (simp add: no_skip_def)
  assume r: "decodeFrame8 vBackBuf2 width height pFrame0 pMap dat dataRemain m = Some (pMap', lg, st')"
  let ?st = "\<lparr>mem = m, pFrame = pFrame0, pData = 0, pDataRemain = dataRemain, curXb = 0, curYb = 0\<rparr>"
  have rows: "grid_rows pFrame0 vBackBuf2 width height dat (width div 16) (height div 8) pMap [] ?st
        = Some (pMap', lg, st')"
    using r unfolding decodeFrame8_grid_walk [OF ns] grid_walk_def .
  have half: "(width div 8) div 2 = width div 16"
    by (simp add: div_mult2_eq [symmetric])
  show "pMap' = drop ((width div 8) div 2 * (height div 8)) pMap"
    using grid_rows_cursor [OF rows ns] half by simp
  assume odd: "8 dvd width \<and> odd (width div 8) \<and> height div 8 = 1"
  fix r c :: nat
  assume rc: "r < 8" "c < 8"
  from rows odd obtain pMap1 lg1 st1 where
    row: "grid_row pFrame0 vBackBuf2 width height dat (width div 16) pMap [] (?st\<lparr>curXb := 0\<rparr>)
            = Some (pMap1, lg1, st1)"
    and st': "st' = st1\<lparr>pFrame := pFrame st1 + 7 * int width, curYb := curYb st1 + 1\<rparr>"
    by (auto split: option.splits)
  from grid_row_last_column [OF row ns _ _ rc] odd st'
  show "mem st' (pFrame0 + int r * int width + int (width - 8) + int c)
        = m (pFrame0 + int r * int width + int (width - 8) + int c)"
    by simp
qed

text \<open>Width 8: nothing is dispatched. Width 24, height 8, map ee: the first byte of the
  last block column, at offset 16, is as before.\<close>

theorem decodeFrame8_odd_block_columns_witness:
  "map_option (\<lambda>(pMap', lg, st). (pMap', lg, mem st))
     (decodeFrame8 1000 8 8 0 [0xee] (\<lambda>k. 5) 4 (\<lambda>a. 0)) = Some ([0xee], [], \<lambda>a. 0)
   \<and> (0xee :: byte) AND 0xf \<noteq> 0x6 \<and> drop_bit 4 (0xee :: byte) \<noteq> 0x6
   \<and> map_option (\<lambda>(pMap', lg, st). (pMap', mem st 16))
       (decodeFrame8 1000 24 8 0 [0xee] (\<lambda>k. 5) 4 (\<lambda>a. 0)) = Some ([], 0)"
proof -
  from decodeFrame8_odd_block_columns [where ?vBackBuf2.0 = 1000 and height = 8 and ?pFrame0.0 = 0
      and pMap = "[0xee]" and dat = "\<lambda>k. 5" and dataRemain = 4 and m = "\<lambda>a. 0" and width = 24]
  have one: "\<exists>st'. decodeFrame8 1000 8 8 0 [0xee] (\<lambda>k. 5) 4 (\<lambda>a. 0) = Some ([0xee], [], st')
              \<and> mem st' = (\<lambda>a. 0)"
    and e: "\<exists>res. decodeFrame8 1000 24 8 0 [0xee] (\<lambda>k. 5) 4 (\<lambda>a. 0) = Some res"
    and t: "\<forall>pMap' lg st'.
           decodeFrame8 1000 24 8 0 [0xee] (\<lambda>k. 5) 4 (\<lambda>a. 0) = Some (pMap', lg, st')
           \<longrightarrow> pMap' = [] \<and> (\<forall>r<8. \<forall>c<8. mem st' (0 + int r * int 24 + int (24 - 8) + int c) = 0)"
    by simp_all
  from e obtain pMap' lg st' where
    r: "decodeFrame8 1000 24 8 0 [0xee] (\<lambda>k. 5) 4 (\<lambda>a. 0) = Some (pMap', lg, st')"
    by (metis prod_cases3)
  from t r have "pMap' = []"
    and "\<forall>r<8. \<forall>c<8. mem st' (0 + int r * int 24 + int (24 - 8) + int c) = 0"
    by blast+
  from one this(1) this(2) [rule_format, of 0 0] r show ?thesis by auto
qed

end
